theory Spec2Isabelle
  imports Complex_Main
begin

section \<open>Data model\<close>

text \<open>
  The backend keeps its data in Prisma tables and talks to two collaborators: the Google
  Classroom API (through an OAuth2 client) and the Expo push gateway. The tables are modelled
  as lists of records, the collaborators as functions of an environment record, and every
  \<open>await\<close>ed operation as a state transformer that may throw.

  Identifiers generated by the database (cuid strings in Prisma) are natural numbers here.
  Timestamps are epoch milliseconds. In the literal titles and bodies of the notifications
  the non-ASCII glyphs are dropped (the emoji, the inverted exclamation mark) or written
  without their accent. Reads and writes of the tables do not throw; the collaborators may.
\<close>

type_synonym userId = string

datatype error =
    GoogleNotConnected
  | OAuthNotConfigured
  | External string

text \<open>One reading of the clock (\<open>new Date()\<close>): the epoch value with the local and UTC views
  the code takes of it (\<open>getTime\<close>, \<open>getHours\<close>, \<open>getMinutes\<close>, \<open>getDay\<close>,
  \<open>toISOString().split('T')[0]\<close>). A pass is evaluated at one reading.\<close>

record instant =
  getTime :: int
  getHours :: nat
  getMinutes :: nat
  getDay :: nat
  isoDate :: string

record connection =
  conn_id :: nat
  conn_userId :: userId
  accessToken :: string
  refreshToken :: string
  tokenExpiry :: int
  conn_syncEnabled :: bool
  lastSyncAt :: "int option"

record course =
  course_id :: nat
  course_userId :: userId
  googleCourseId :: string
  course_name :: string
  course_section :: "string option"
  course_description :: "string option"
  teacherName :: string
  course_syncEnabled :: bool

datatype taskStatus = PENDING | IN_PROGRESS | COMPLETED | SUBMITTED | LATE

datatype priority = HIGH | MEDIUM

record task =
  task_id :: nat
  task_userId :: userId
  title :: string
  task_description :: "string option"
  isFromClassroom :: bool
  googleTaskId :: "string option"
  task_courseId :: "nat option"
  dueDate :: "int option"
  task_priority :: priority
  status :: taskStatus
  notified24h :: bool
  notified1h :: bool
  createdAt :: int

record notificationPreference =
  pref_userId :: userId
  newTasksEnabled :: bool
  classRemindersEnabled :: bool
  classReminderMinutes :: nat
  gymRemindersEnabled :: bool
  propedeuticoEnabled :: bool
  taskDue24hEnabled :: bool
  taskDue1hEnabled :: bool
  quietHoursEnabled :: bool
  quietHoursStart :: "string option"
  quietHoursEnd :: "string option"

record pushToken =
  pt_userId :: userId
  token :: string
  isActive :: bool

record user =
  user_id :: userId
  email :: string

record schedule =
  sched_userId :: userId
  sched_name :: string
  dayOfWeek :: nat
  startTime :: string
  sched_isActive :: bool
  skippedDates :: "string list"

record pushMessage =
  msg_title :: string
  msg_body :: string
  msg_type :: string

text \<open>A push ticket of the Expo response: \<open>status\<close> and \<open>details?.error\<close>.\<close>

record ticket =
  ticket_status :: string
  ticket_error :: "string option"

text \<open>What the code observably does to the outside: calls of the Classroom API (with the
  account whose credentials the client carries), calls of the push gateway, the calls the
  reminder job makes for a task's due reminder (with the task of the loop iteration), and
  \<open>console.error\<close> lines of the catch blocks.\<close>

datatype event =
    RefreshAccessToken userId
  | CoursesList userId
  | TeachersList userId string
  | CourseWorkList userId string
  | ExpoPush "string list" pushMessage
  | TaskDueCall nat userId string int
  | ConsoleError string error

record world =
  connections :: "connection list"
  courses :: "course list"
  tasks :: "task list"
  notificationPrefs :: "notificationPreference list"
  pushTokens :: "pushToken list"
  users :: "user list"
  classSchedules :: "schedule list"
  gymSchedules :: "schedule list"
  propedeuticoSchedules :: "schedule list"
  trace :: "event list"

section \<open>Operations that may throw\<close>

type_synonym 'a io = "world \<Rightarrow> (error + 'a) \<times> world"

definition ret :: "'a \<Rightarrow> 'a io" where
  "ret x = (\<lambda>w. (Inr x, w))"

definition throw :: "error \<Rightarrow> 'a io" where
  "throw e = (\<lambda>w. (Inl e, w))"

definition bind :: "'a io \<Rightarrow> ('a \<Rightarrow> 'b io) \<Rightarrow> 'b io" where
  "bind m f = (\<lambda>w. case m w of (Inl e, w') \<Rightarrow> (Inl e, w') | (Inr x, w') \<Rightarrow> f x w')"

definition catch :: "'a io \<Rightarrow> (error \<Rightarrow> 'a io) \<Rightarrow> 'a io" where
  "catch m h = (\<lambda>w. case m w of (Inl e, w') \<Rightarrow> h e w' | (Inr x, w') \<Rightarrow> (Inr x, w'))"

definition emit :: "event \<Rightarrow> unit io" where
  "emit ev = (\<lambda>w. (Inr (), w\<lparr>trace := trace w @ [ev]\<rparr>))"

text \<open>\<open>for (const x of xs) { await body(x) }\<close>: the first throw leaves the loop.\<close>

fun forEach :: "('a \<Rightarrow> unit io) \<Rightarrow> 'a list \<Rightarrow> unit io" where
  "forEach body [] = ret ()"
| "forEach body (x # xs) = bind (body x) (\<lambda>_. forEach body xs)"

section \<open>Strings of the JavaScript runtime\<close>

text \<open>\<open>a < b\<close> on strings compares code units from the left; a proper prefix is smaller.\<close>

fun str_less :: "string \<Rightarrow> string \<Rightarrow> bool" where
  "str_less [] [] = False"
| "str_less [] (y # ys) = True"
| "str_less (x # xs) [] = False"
| "str_less (x # xs) (y # ys) =
     ((of_char x :: nat) < of_char y \<or> (x = y \<and> str_less xs ys))"

definition str_le :: "string \<Rightarrow> string \<Rightarrow> bool" where
  "str_le a b = (a = b \<or> str_less a b)"

definition str_ge :: "string \<Rightarrow> string \<Rightarrow> bool" where
  "str_ge a b = str_le b a"

definition digitChar :: "nat \<Rightarrow> char" where
  "digitChar d =
     (if d = 0 then CHR ''0'' else if d = 1 then CHR ''1'' else if d = 2 then CHR ''2''
      else if d = 3 then CHR ''3'' else if d = 4 then CHR ''4'' else if d = 5 then CHR ''5''
      else if d = 6 then CHR ''6'' else if d = 7 then CHR ''7'' else if d = 8 then CHR ''8''
      else CHR ''9'')"

function showNat :: "nat \<Rightarrow> string" where
  "showNat n = (if n < 10 then [digitChar n] else showNat (n div 10) @ [digitChar (n mod 10)])"
  by pat_completeness auto
termination
  by (relation "measure id") auto

definition showInt :: "int \<Rightarrow> string" where
  "showInt i = (if i < 0 then CHR ''-'' # showNat (nat (- i)) else showNat (nat i))"

text \<open>\<open>s.padStart(2, '0')\<close>.\<close>

definition padStart2 :: "string \<Rightarrow> string" where
  "padStart2 s = replicate (2 - length s) CHR ''0'' @ s"

text \<open>The \<open>HH:MM\<close> string both services build from \<open>getHours\<close> and \<open>getMinutes\<close>.\<close>

definition getCurrentTime :: "instant \<Rightarrow> string" where
  "getCurrentTime now = padStart2 (showNat (getHours now)) @ '':'' @ padStart2 (showNat (getMinutes now))"

section \<open>JavaScript numbers\<close>

text \<open>A JavaScript number is an IEEE 754 double: not-a-number, one of the two infinities, or a
  finite value, which is a rational number. The two zeros are one value here: the code that
  computes with these numbers only multiplies, adds, subtracts and compares them, and none of
  these tells the zeros apart.\<close>

datatype jsNumber = NaN | Infinity | NegInfinity | Fin rat

section \<open>Collaborators\<close>

text \<open>The Classroom API answers per account (the account whose credentials the shared OAuth2
  client carries); the push gateway answers per batch. Each may throw. An optional field of
  an upstream object is \<open>None\<close> when the response leaves it out; the ids of upstream courses
  and assignments are always there (\<open>course.id!\<close>). \<open>localDate\<close> is the runtime's
  \<open>new Date(year, monthIndex, day, hours, minutes)\<close>, \<open>Number\<close> its conversion of a string to
  a number, and \<open>roundDouble\<close> its rounding of the exact result of an arithmetic operation to
  the nearest double (to an infinity past the largest one). The last four fields are parameters:
  the column defaults of the Prisma schema for the columns that a \<open>create\<close> of the code
  leaves out.\<close>

record credentials =
  cred_access_token :: string
  cred_refresh_token :: "string option"
  cred_expiry_date :: "int option"

record gTeacher =
  teacher_userId :: "string option"
  teacher_fullName :: "string option"

record gCourse =
  gc_id :: string
  gc_ownerId :: "string option"
  gc_name :: "string option"
  gc_section :: "string option"
  gc_description :: "string option"

record gDate =
  gd_year :: "int option"
  gd_month :: "int option"
  gd_day :: "int option"

record gTime =
  gt_hours :: "int option"
  gt_minutes :: "int option"

record gWork =
  gw_id :: string
  gw_title :: "string option"
  gw_description :: "string option"
  gw_dueDate :: "gDate option"
  gw_dueTime :: "gTime option"

record env =
  refreshAccessToken :: "connection \<Rightarrow> error + credentials"
  coursesList :: "userId \<Rightarrow> error + gCourse list"
  teachersList :: "userId \<Rightarrow> string \<Rightarrow> error + gTeacher list"
  courseWorkList :: "userId \<Rightarrow> string \<Rightarrow> error + gWork list"
  expoPush :: "string list \<Rightarrow> pushMessage \<Rightarrow> error + ticket list option"
  localDate :: "int \<Rightarrow> int \<Rightarrow> int \<Rightarrow> int \<Rightarrow> int \<Rightarrow> int"
  Number :: "string \<Rightarrow> jsNumber"
  roundDouble :: "rat \<Rightarrow> jsNumber"
  default_course_syncEnabled :: bool
  default_task_status :: taskStatus
  default_notified24h :: bool
  default_notified1h :: bool

section \<open>NotificationService\<close>

text \<open>\<open>prisma.pushToken.updateMany({ where: { token: tokens[i] }, data: { isActive: false } })\<close>.
  An index past the end of \<open>tokens\<close> reads \<open>undefined\<close>, and Prisma drops an undefined
  filter, so the update then reaches every row.\<close>

definition deactivateToken :: "string option \<Rightarrow> unit io" where
  "deactivateToken t = (\<lambda>w. (Inr (),
     w\<lparr>pushTokens := map (\<lambda>p. if (case t of None \<Rightarrow> True | Some s \<Rightarrow> token p = s)
                                then p\<lparr>isActive := False\<rparr> else p) (pushTokens w)\<rparr>))"

definition nth_opt :: "'a list \<Rightarrow> nat \<Rightarrow> 'a option" where
  "nth_opt xs i = (if i < length xs then Some (xs ! i) else None)"

fun handleTickets :: "string list \<Rightarrow> nat \<Rightarrow> ticket list \<Rightarrow> unit io" where
  "handleTickets toks i [] = ret ()"
| "handleTickets toks i (t # ts) =
     bind (if ticket_status t = ''error'' \<and> ticket_error t = Some ''DeviceNotRegistered''
           then deactivateToken (nth_opt toks i) else ret ())
          (\<lambda>_. handleTickets toks (Suc i) ts)"

definition sendExpoPush :: "env \<Rightarrow> string list \<Rightarrow> pushMessage \<Rightarrow> (ticket list option) io" where
  "sendExpoPush E toks message =
     bind (emit (ExpoPush toks message)) (\<lambda>_.
       case expoPush E toks message of
         Inl e \<Rightarrow> throw e
       | Inr result \<Rightarrow>
           bind (case result of None \<Rightarrow> ret () | Some data \<Rightarrow> handleTickets toks 0 data)
                (\<lambda>_. ret result))"

text \<open>The senders return \<open>null\<close> when they do not deliver; the model keeps apart the three
  places that do so: a disabled category, quiet hours, and no active token.\<close>

datatype outcome =
    PrefDisabled
  | QuietHours
  | NoActiveTokens
  | Sent "ticket list option"

definition findPrefs :: "world \<Rightarrow> userId \<Rightarrow> notificationPreference option" where
  "findPrefs w uid = find (\<lambda>p. pref_userId p = uid) (notificationPrefs w)"

definition activeTokens :: "world \<Rightarrow> userId \<Rightarrow> pushToken list" where
  "activeTokens w uid = filter (\<lambda>p. pt_userId p = uid \<and> isActive p) (pushTokens w)"

text \<open>The quiet-hours test of \<open>sendToUser\<close>:
  \<open>prefs?.quietHoursEnabled && prefs.quietHoursStart && prefs.quietHoursEnd\<close> and then
  \<open>currentTime >= prefs.quietHoursStart || currentTime <= prefs.quietHoursEnd\<close>.\<close>

definition inQuietHours :: "notificationPreference option \<Rightarrow> instant \<Rightarrow> bool" where
  "inQuietHours prefs now =
     (case prefs of
        None \<Rightarrow> False
      | Some p \<Rightarrow>
          (case (quietHoursStart p, quietHoursEnd p) of
             (Some qs, Some qe) \<Rightarrow>
               quietHoursEnabled p \<and> qs \<noteq> [] \<and> qe \<noteq> [] \<and>
               (str_ge (getCurrentTime now) qs \<or> str_le (getCurrentTime now) qe)
           | _ \<Rightarrow> False))"

definition sendToUser :: "env \<Rightarrow> instant \<Rightarrow> userId \<Rightarrow> pushMessage \<Rightarrow> outcome io" where
  "sendToUser E now uid message = (\<lambda>w.
     if inQuietHours (findPrefs w uid) now then (Inr QuietHours, w)
     else
       let toks = activeTokens w uid in
       if length toks = 0 then (Inr NoActiveTokens, w)
       else bind (sendExpoPush E (map token toks) message) (\<lambda>r. ret (Sent r)) w)"

definition sendNewTaskNotification :: "env \<Rightarrow> instant \<Rightarrow> userId \<Rightarrow> string \<Rightarrow> string option \<Rightarrow> outcome io" where
  "sendNewTaskNotification E now uid taskTitle courseName = (\<lambda>w.
     if (case findPrefs w uid of Some p \<Rightarrow> \<not> newTasksEnabled p | None \<Rightarrow> False)
     then (Inr PrefDisabled, w)
     else sendToUser E now uid
           \<lparr>msg_title = ''Nueva tarea de Classroom'',
            msg_body = (case courseName of
                          None \<Rightarrow> taskTitle
                        | Some n \<Rightarrow> if n \<noteq> [] then taskTitle @ '' - '' @ n else taskTitle),
            msg_type = ''new_task''\<rparr> w)"

definition sendClassReminderNotification :: "env \<Rightarrow> instant \<Rightarrow> userId \<Rightarrow> string \<Rightarrow> nat \<Rightarrow> outcome io" where
  "sendClassReminderNotification E now uid className minutesBefore = (\<lambda>w.
     if (case findPrefs w uid of Some p \<Rightarrow> \<not> classRemindersEnabled p | None \<Rightarrow> False)
     then (Inr PrefDisabled, w)
     else sendToUser E now uid
           \<lparr>msg_title = ''Clase proxima'',
            msg_body = className @ '' comienza en '' @ showNat minutesBefore @ '' minutos'',
            msg_type = ''class_reminder''\<rparr> w)"

definition sendGymReminderNotification :: "env \<Rightarrow> instant \<Rightarrow> userId \<Rightarrow> outcome io" where
  "sendGymReminderNotification E now uid = (\<lambda>w.
     if (case findPrefs w uid of Some p \<Rightarrow> \<not> gymRemindersEnabled p | None \<Rightarrow> False)
     then (Inr PrefDisabled, w)
     else sendToUser E now uid
           \<lparr>msg_title = ''Hora del gym'',
            msg_body = ''Tu sesion de gym comienza pronto'',
            msg_type = ''gym_reminder''\<rparr> w)"

definition sendPropedeuticoReminderNotification :: "env \<Rightarrow> instant \<Rightarrow> userId \<Rightarrow> string \<Rightarrow> outcome io" where
  "sendPropedeuticoReminderNotification E now uid name = (\<lambda>w.
     if (case findPrefs w uid of Some p \<Rightarrow> \<not> propedeuticoEnabled p | None \<Rightarrow> False)
     then (Inr PrefDisabled, w)
     else sendToUser E now uid
           \<lparr>msg_title = ''Propedeutico'',
            msg_body = name @ '' comienza pronto'',
            msg_type = ''propedeutico_reminder''\<rparr> w)"

definition sendTaskDueNotification :: "env \<Rightarrow> instant \<Rightarrow> userId \<Rightarrow> string \<Rightarrow> int \<Rightarrow> outcome io" where
  "sendTaskDueNotification E now uid taskTitle hoursLeft = (\<lambda>w.
     let prefs = findPrefs w uid in
     if hoursLeft \<le> 1 \<and> (case prefs of Some p \<Rightarrow> \<not> taskDue1hEnabled p | None \<Rightarrow> False)
     then (Inr PrefDisabled, w)
     else if hoursLeft \<le> 24 \<and> hoursLeft > 1 \<and>
             (case prefs of Some p \<Rightarrow> \<not> taskDue24hEnabled p | None \<Rightarrow> False)
     then (Inr PrefDisabled, w)
     else
       let timeText = (if hoursLeft \<le> 1 then ''en menos de 1 hora!''
                       else ''en '' @ showInt hoursLeft @ '' horas'') in
       sendToUser E now uid
         \<lparr>msg_title = ''Tarea por vencer'',
          msg_body = [CHR 0x22] @ taskTitle @ [CHR 0x22] @ '' vence '' @ timeText,
          msg_type = ''task_due''\<rparr> w)"

section \<open>ReminderJob\<close>

text \<open>The arithmetic and the comparisons of the runtime on numbers: \<open>a + b\<close>, \<open>a - b\<close>,
  \<open>a * b\<close>, \<open>a > b\<close> and \<open>a <= b\<close>. An operation on finite values gives the rounded exact
  result; not-a-number is contagious and every comparison with it is false.\<close>

fun jsNeg :: "jsNumber \<Rightarrow> jsNumber" where
  "jsNeg NaN = NaN"
| "jsNeg Infinity = NegInfinity"
| "jsNeg NegInfinity = Infinity"
| "jsNeg (Fin x) = Fin (- x)"

fun jsAdd :: "env \<Rightarrow> jsNumber \<Rightarrow> jsNumber \<Rightarrow> jsNumber" where
  "jsAdd E NaN b = NaN"
| "jsAdd E a NaN = NaN"
| "jsAdd E (Fin x) (Fin y) = roundDouble E (x + y)"
| "jsAdd E (Fin x) b = b"
| "jsAdd E a (Fin y) = a"
| "jsAdd E a b = (if a = b then a else NaN)"

definition jsSub :: "env \<Rightarrow> jsNumber \<Rightarrow> jsNumber \<Rightarrow> jsNumber" where
  "jsSub E a b = jsAdd E a (jsNeg b)"

fun jsSign :: "jsNumber \<Rightarrow> int" where
  "jsSign NaN = 0"
| "jsSign Infinity = 1"
| "jsSign NegInfinity = - 1"
| "jsSign (Fin x) = (if x > 0 then 1 else if x < 0 then - 1 else 0)"

fun jsMul :: "env \<Rightarrow> jsNumber \<Rightarrow> jsNumber \<Rightarrow> jsNumber" where
  "jsMul E NaN b = NaN"
| "jsMul E a NaN = NaN"
| "jsMul E (Fin x) (Fin y) = roundDouble E (x * y)"
| "jsMul E a b = (if jsSign a * jsSign b = 0 then NaN
                  else if jsSign a * jsSign b > 0 then Infinity else NegInfinity)"

fun jsGreater :: "jsNumber \<Rightarrow> jsNumber \<Rightarrow> bool" where
  "jsGreater NaN b = False"
| "jsGreater a NaN = False"
| "jsGreater (Fin x) (Fin y) = (x > y)"
| "jsGreater Infinity b = (b \<noteq> Infinity)"
| "jsGreater a NegInfinity = (a \<noteq> NegInfinity)"
| "jsGreater a b = False"

definition jsLessEq :: "jsNumber \<Rightarrow> jsNumber \<Rightarrow> bool" where
  "jsLessEq a b = (a \<noteq> NaN \<and> b \<noteq> NaN \<and> \<not> jsGreater a b)"

text \<open>\<open>time.split(':')\<close>.\<close>

fun splitColon :: "string \<Rightarrow> string list" where
  "splitColon [] = [[]]"
| "splitColon (c # cs) =
     (if c = CHR '':'' then [] # splitColon cs
      else (case splitColon cs of [] \<Rightarrow> [[c]] | p # ps \<Rightarrow> (c # p) # ps))"

text \<open>\<open>const [hours, minutes] = time.split(':').map(Number); return hours * 60 + minutes\<close>.
  A start time is any stored string (the import route of the class schedules stores
  \<open>horaInicio\<close> as it comes). When the string has no colon, \<open>minutes\<close> is \<open>undefined\<close> and the
  sum is not-a-number.\<close>

definition getTimeInMinutes :: "env \<Rightarrow> string \<Rightarrow> jsNumber" where
  "getTimeInMinutes E time =
     (case map (Number E) (splitColon time) of
        hours # minutes # _ \<Rightarrow> jsAdd E (jsMul E hours (Fin 60)) minutes
      | _ \<Rightarrow> NaN)"

text \<open>\<open>minutesBefore\<close> is 15 or the \<open>classReminderMinutes\<close> column, an integer that a double
  holds exactly.\<close>

definition isWithinMinutesBefore :: "env \<Rightarrow> instant \<Rightarrow> string \<Rightarrow> nat \<Rightarrow> bool" where
  "isWithinMinutesBefore E now targetTime minutesBefore =
     (let nowMinutes = getTimeInMinutes E (getCurrentTime now);
          targetMinutes = getTimeInMinutes E targetTime;
          diff = jsSub E targetMinutes nowMinutes
      in jsGreater diff (Fin 0) \<and> jsLessEq diff (Fin (of_nat minutesBefore)))"

text \<open>\<open>prefs?.flag !== false\<close> for an optional preference row.\<close>

definition notFalse :: "notificationPreference option \<Rightarrow> (notificationPreference \<Rightarrow> bool) \<Rightarrow> bool" where
  "notFalse prefs flag = (case prefs of None \<Rightarrow> True | Some p \<Rightarrow> flag p)"

definition setNotified24h :: "nat \<Rightarrow> unit io" where
  "setNotified24h i = (\<lambda>w. (Inr (),
     w\<lparr>tasks := map (\<lambda>t. if task_id t = i then t\<lparr>notified24h := True\<rparr> else t) (tasks w)\<rparr>))"

definition setNotified1h :: "nat \<Rightarrow> unit io" where
  "setNotified1h i = (\<lambda>w. (Inr (),
     w\<lparr>tasks := map (\<lambda>t. if task_id t = i then t\<lparr>notified1h := True\<rparr> else t) (tasks w)\<rparr>))"

definition hourMs :: int where
  "hourMs = 1000 * 60 * 60"

text \<open>The body of the loop of \<open>checkTaskDueReminders\<close> for one task of the list loaded at the
  start of the pass. \<open>hoursUntilDue\<close> is the millisecond difference divided by 3600000; its
  comparisons with 24, 23, 1 and 0 are made on the milliseconds, which is exact. The flags
  are read from the loaded row.\<close>

definition checkOneTask :: "env \<Rightarrow> instant \<Rightarrow> userId \<Rightarrow> notificationPreference option \<Rightarrow> task \<Rightarrow> unit io" where
  "checkOneTask E now uid prefs t =
     (case dueDate t of
        None \<Rightarrow> ret ()
      | Some due \<Rightarrow>
          let msUntilDue = due - getTime now in
          bind (if notFalse prefs taskDue24hEnabled \<and> \<not> notified24h t \<and>
                   msUntilDue \<le> 24 * hourMs \<and> msUntilDue > 23 * hourMs
                then bind (emit (TaskDueCall (task_id t) uid (title t) 24)) (\<lambda>_.
                     bind (sendTaskDueNotification E now uid (title t) 24) (\<lambda>_.
                     setNotified24h (task_id t)))
                else ret ())
          (\<lambda>_. if notFalse prefs taskDue1hEnabled \<and> \<not> notified1h t \<and>
                   msUntilDue \<le> 1 * hourMs \<and> msUntilDue > 0
                then bind (emit (TaskDueCall (task_id t) uid (title t) 1)) (\<lambda>_.
                     bind (sendTaskDueNotification E now uid (title t) 1) (\<lambda>_.
                     setNotified1h (task_id t)))
                else ret ()))"

definition pendingDueTasks :: "world \<Rightarrow> userId \<Rightarrow> task list" where
  "pendingDueTasks w uid =
     filter (\<lambda>t. task_userId t = uid \<and> (status t = PENDING \<or> status t = IN_PROGRESS) \<and> dueDate t \<noteq> None)
            (tasks w)"

definition checkTaskDueReminders :: "env \<Rightarrow> instant \<Rightarrow> userId \<Rightarrow> notificationPreference option \<Rightarrow> unit io" where
  "checkTaskDueReminders E now uid prefs = (\<lambda>w.
     forEach (checkOneTask E now uid prefs) (pendingDueTasks w uid) w)"

definition todaysSchedules :: "schedule list \<Rightarrow> userId \<Rightarrow> nat \<Rightarrow> schedule list" where
  "todaysSchedules tbl uid today =
     filter (\<lambda>s. sched_userId s = uid \<and> dayOfWeek s = today \<and> sched_isActive s) tbl"

text \<open>The body of the loop of \<open>run\<close> over the users, for a user loaded with preferences and
  active push tokens at the start of the pass.\<close>

definition remindUser :: "env \<Rightarrow> instant \<Rightarrow> user \<Rightarrow> notificationPreference option \<Rightarrow> pushToken list \<Rightarrow> unit io" where
  "remindUser E now u prefs userTokens =
     (if length userTokens = 0 then ret ()
      else
        let reminderMinutes =
              (case prefs of None \<Rightarrow> 15
               | Some p \<Rightarrow> if classReminderMinutes p = 0 then 15 else classReminderMinutes p) in
        bind (if notFalse prefs classRemindersEnabled
              then (\<lambda>w. forEach (\<lambda>cls.
                      if isWithinMinutesBefore E now (startTime cls) reminderMinutes
                      then bind (sendClassReminderNotification E now (user_id u) (sched_name cls) reminderMinutes)
                                (\<lambda>_. ret ())
                      else ret ())
                    (todaysSchedules (classSchedules w) (user_id u) (getDay now)) w)
              else ret ()) (\<lambda>_.
        bind (if notFalse prefs gymRemindersEnabled
              then (\<lambda>w. forEach (\<lambda>gym.
                      if isoDate now \<in> set (skippedDates gym) then ret ()
                      else if isWithinMinutesBefore E now (startTime gym) 15
                      then bind (sendGymReminderNotification E now (user_id u)) (\<lambda>_. ret ())
                      else ret ())
                    (todaysSchedules (gymSchedules w) (user_id u) (getDay now)) w)
              else ret ()) (\<lambda>_.
        bind (if notFalse prefs propedeuticoEnabled
              then (\<lambda>w. forEach (\<lambda>prop.
                      if isWithinMinutesBefore E now (startTime prop) 15
                      then bind (sendPropedeuticoReminderNotification E now (user_id u) (sched_name prop))
                                (\<lambda>_. ret ())
                      else ret ())
                    (todaysSchedules (propedeuticoSchedules w) (user_id u) (getDay now)) w)
              else ret ()) (\<lambda>_.
        checkTaskDueReminders E now (user_id u) prefs))))"

definition reminderJob_run :: "env \<Rightarrow> instant \<Rightarrow> unit io" where
  "reminderJob_run E now = (\<lambda>w.
     forEach (\<lambda>u. remindUser E now u (findPrefs w (user_id u)) (activeTokens w (user_id u)))
             (users w) w)"

section \<open>ClassroomService\<close>

text \<open>The authorised client is identified by the account whose credentials it carries.\<close>

type_synonym client = userId

definition findConnection :: "world \<Rightarrow> userId \<Rightarrow> connection option" where
  "findConnection w uid = find (\<lambda>c. conn_userId c = uid) (connections w)"

text \<open>\<open>prisma.googleClassroomConnection.update({ where: { userId }, data: { accessToken,
  refreshToken, tokenExpiry } })\<close> after a refresh: \<open>credentials.refresh_token ||
  connection.refreshToken\<close> and \<open>credentials.expiry_date || Date.now() + 3600000\<close>.\<close>

definition storeCredentials :: "instant \<Rightarrow> userId \<Rightarrow> connection \<Rightarrow> credentials \<Rightarrow> unit io" where
  "storeCredentials now uid conn cr = (\<lambda>w. (Inr (),
     w\<lparr>connections := map (\<lambda>c. if conn_userId c = uid
        then c\<lparr>accessToken := cred_access_token cr,
               refreshToken := (case cred_refresh_token cr of
                                  None \<Rightarrow> refreshToken conn
                                | Some r \<Rightarrow> if r \<noteq> [] then r else refreshToken conn),
               tokenExpiry := (case cred_expiry_date cr of
                                 None \<Rightarrow> getTime now + 3600000
                               | Some x \<Rightarrow> if x \<noteq> 0 then x else getTime now + 3600000)\<rparr>
        else c) (connections w)\<rparr>))"

definition getAuthenticatedClient :: "env \<Rightarrow> instant \<Rightarrow> userId \<Rightarrow> client io" where
  "getAuthenticatedClient E now uid = (\<lambda>w.
     case findConnection w uid of
       None \<Rightarrow> (Inl GoogleNotConnected, w)
     | Some conn \<Rightarrow>
         if accessToken conn = [] then (Inl OAuthNotConfigured, w)
         else if tokenExpiry conn < getTime now
         then bind (emit (RefreshAccessToken uid)) (\<lambda>_.
                case refreshAccessToken E conn of
                  Inl e \<Rightarrow> throw e
                | Inr cr \<Rightarrow> bind (storeCredentials now uid conn cr) (\<lambda>_. ret uid)) w
         else (Inr uid, w))"

definition nextId :: "nat list \<Rightarrow> nat" where
  "nextId ids = Suc (foldr max ids 0)"

text \<open>\<open>s || dflt\<close> for an optional string.\<close>

definition orString :: "string option \<Rightarrow> string \<Rightarrow> string" where
  "orString s dflt = (case s of None \<Rightarrow> dflt | Some x \<Rightarrow> if x \<noteq> [] then x else dflt)"

text \<open>\<open>n || dflt\<close> for an optional number.\<close>

definition orNumber :: "int option \<Rightarrow> int \<Rightarrow> int" where
  "orNumber n dflt = (case n of None \<Rightarrow> dflt | Some x \<Rightarrow> if x \<noteq> 0 then x else dflt)"

text \<open>The teacher lookup of \<open>syncCourses\<close>, inside its own \<open>try\<close>: the owner is the first
  teacher whose \<open>userId\<close> is the course's \<open>ownerId\<close>; a failed call leaves the name empty.\<close>

definition fetchTeacherName :: "env \<Rightarrow> client \<Rightarrow> gCourse \<Rightarrow> string io" where
  "fetchTeacherName E cl gc =
     bind (emit (TeachersList cl (gc_id gc))) (\<lambda>_.
       case teachersList E cl (gc_id gc) of
         Inl e \<Rightarrow> ret []
       | Inr teachers \<Rightarrow>
           ret (case find (\<lambda>t. teacher_userId t = gc_ownerId gc) teachers of
                  None \<Rightarrow> []
                | Some owner \<Rightarrow> orString (teacher_fullName owner) []))"

text \<open>An optional upstream field that the response leaves out reads as \<open>undefined\<close>
  (\<open>None\<close>). In the data of an \<open>update\<close> Prisma skips an undefined value, so the column keeps
  what it had; in the data of a \<open>create\<close> the column gets its default, null.\<close>

definition keepOr :: "'a option \<Rightarrow> 'a option \<Rightarrow> 'a option" where
  "keepOr new old = (case new of None \<Rightarrow> old | Some v \<Rightarrow> Some v)"

text \<open>\<open>prisma.course.upsert\<close> on the unique key \<open>(userId, googleCourseId)\<close>.\<close>

definition upsertCourse :: "env \<Rightarrow> userId \<Rightarrow> gCourse \<Rightarrow> string \<Rightarrow> course io" where
  "upsertCourse E uid gc tname = (\<lambda>w.
     let hit = (\<lambda>c. course_userId c = uid \<and> googleCourseId c = gc_id gc);
         upd = (\<lambda>c. c\<lparr>course_name := orString (gc_name gc) ''Unnamed Course'',
                        course_section := keepOr (gc_section gc) (course_section c),
                        course_description := keepOr (gc_description gc) (course_description c),
                        teacherName := tname\<rparr>)
     in case find hit (courses w) of
          Some c \<Rightarrow> (Inr (upd c), w\<lparr>courses := map (\<lambda>c. if hit c then upd c else c) (courses w)\<rparr>)
        | None \<Rightarrow>
            let row = \<lparr>course_id = nextId (map course_id (courses w)),
                       course_userId = uid,
                       googleCourseId = gc_id gc,
                       course_name = orString (gc_name gc) ''Unnamed Course'',
                       course_section = gc_section gc,
                       course_description = gc_description gc,
                       teacherName = tname,
                       course_syncEnabled = default_course_syncEnabled E\<rparr>
            in (Inr row, w\<lparr>courses := courses w @ [row]\<rparr>))"

text \<open>A loop that pushes to a local array: the array is the accumulator.\<close>

fun foldIO :: "('s \<Rightarrow> 'a \<Rightarrow> 's io) \<Rightarrow> 's \<Rightarrow> 'a list \<Rightarrow> 's io" where
  "foldIO body acc [] = ret acc"
| "foldIO body acc (x # xs) = bind (body acc x) (\<lambda>acc'. foldIO body acc' xs)"

definition syncCourses :: "env \<Rightarrow> instant \<Rightarrow> userId \<Rightarrow> (course list) io" where
  "syncCourses E now uid =
     bind (getAuthenticatedClient E now uid) (\<lambda>cl.
     bind (emit (CoursesList cl)) (\<lambda>_.
       case coursesList E cl of
         Inl e \<Rightarrow> throw e
       | Inr gcs \<Rightarrow>
           foldIO (\<lambda>syncedCourses gc.
                     bind (fetchTeacherName E cl gc) (\<lambda>tname.
                     bind (upsertCourse E uid gc tname) (\<lambda>synced.
                     ret (syncedCourses @ [synced]))))
                  [] gcs))"

text \<open>The due date of a new task: \<open>null\<close> without an upstream \<open>dueDate\<close>, else
  \<open>new Date(year || 2024, (month || 1) - 1, day || 1, dueTime?.hours || 23,
  dueTime?.minutes || 59)\<close>.\<close>

definition parseDueDate :: "env \<Rightarrow> gWork \<Rightarrow> int option" where
  "parseDueDate E work =
     (case gw_dueDate work of
        None \<Rightarrow> None
      | Some d \<Rightarrow>
          Some (localDate E
                  (orNumber (gd_year d) 2024)
                  (orNumber (gd_month d) 1 - 1)
                  (orNumber (gd_day d) 1)
                  (orNumber (case gw_dueTime work of None \<Rightarrow> None | Some t \<Rightarrow> gt_hours t) 23)
                  (orNumber (case gw_dueTime work of None \<Rightarrow> None | Some t \<Rightarrow> gt_minutes t) 59)))"

definition findTask :: "world \<Rightarrow> userId \<Rightarrow> string \<Rightarrow> task option" where
  "findTask w uid gid = find (\<lambda>t. task_userId t = uid \<and> googleTaskId t = Some gid) (tasks w)"

text \<open>The body of the inner loop of \<open>syncTasks\<close> for one upstream assignment.\<close>

definition importWork :: "env \<Rightarrow> instant \<Rightarrow> userId \<Rightarrow> course \<Rightarrow> task list \<Rightarrow> gWork \<Rightarrow> (task list) io" where
  "importWork E now uid c newTasks work = (\<lambda>w.
     case findTask w uid (gw_id work) of
       Some existing \<Rightarrow> (Inr newTasks, w)
     | None \<Rightarrow>
         let due = parseDueDate E work;
             row = \<lparr>task_id = nextId (map task_id (tasks w)),
                    task_userId = uid,
                    title = orString (gw_title work) ''Untitled Task'',
                    task_description = gw_description work,
                    isFromClassroom = True,
                    googleTaskId = Some (gw_id work),
                    task_courseId = Some (course_id c),
                    dueDate = due,
                    task_priority = (case due of
                                       None \<Rightarrow> MEDIUM
                                     | Some d \<Rightarrow> if d < getTime now + 86400000 then HIGH else MEDIUM),
                    status = default_task_status E,
                    notified24h = default_notified24h E,
                    notified1h = default_notified1h E,
                    createdAt = getTime now\<rparr>
         in (Inr (newTasks @ [row]), w\<lparr>tasks := tasks w @ [row]\<rparr>))"

text \<open>The body of the outer loop of \<open>syncTasks\<close> for one course, with its \<open>try\<close>/\<open>catch\<close>.\<close>

definition syncCourseTasks :: "env \<Rightarrow> instant \<Rightarrow> userId \<Rightarrow> client \<Rightarrow> task list \<Rightarrow> course \<Rightarrow> (task list) io" where
  "syncCourseTasks E now uid cl newTasks c =
     catch
       (bind (emit (CourseWorkList cl (googleCourseId c))) (\<lambda>_.
          case courseWorkList E cl (googleCourseId c) of
            Inl e \<Rightarrow> throw e
          | Inr coursework \<Rightarrow> foldIO (importWork E now uid c) newTasks coursework))
       (\<lambda>e. bind (emit (ConsoleError (''Error syncing course '' @ course_name c @ '':'') e))
                  (\<lambda>_. ret newTasks))"

definition syncEnabledCourses :: "world \<Rightarrow> userId \<Rightarrow> course list" where
  "syncEnabledCourses w uid = filter (\<lambda>c. course_userId c = uid \<and> course_syncEnabled c) (courses w)"

definition syncTasks :: "env \<Rightarrow> instant \<Rightarrow> userId \<Rightarrow> (task list) io" where
  "syncTasks E now uid =
     bind (getAuthenticatedClient E now uid) (\<lambda>cl w.
       foldIO (syncCourseTasks E now uid cl) [] (syncEnabledCourses w uid) w)"

definition countClassroomTasks :: "world \<Rightarrow> userId \<Rightarrow> nat" where
  "countClassroomTasks w uid = length (filter (\<lambda>t. task_userId t = uid \<and> isFromClassroom t) (tasks w))"

definition checkForNewTasks :: "env \<Rightarrow> instant \<Rightarrow> userId \<Rightarrow> (bool \<times> int) io" where
  "checkForNewTasks E now uid = (\<lambda>w.
     let before = countClassroomTasks w uid in
     bind (syncTasks E now uid) (\<lambda>_ w'.
       let after = countClassroomTasks w' uid in
       (Inr (after > before, int after - int before), w')) w)"

section \<open>SyncJob\<close>

definition setLastSyncAt :: "instant \<Rightarrow> nat \<Rightarrow> unit io" where
  "setLastSyncAt now i = (\<lambda>w. (Inr (),
     w\<lparr>connections := map (\<lambda>c. if conn_id c = i then c\<lparr>lastSyncAt := Some (getTime now)\<rparr> else c)
                            (connections w)\<rparr>))"

definition userEmail :: "world \<Rightarrow> userId \<Rightarrow> string" where
  "userEmail w uid = (case find (\<lambda>u. user_id u = uid) (users w) of None \<Rightarrow> [] | Some u \<Rightarrow> email u)"

definition courseNameOf :: "world \<Rightarrow> task \<Rightarrow> string option" where
  "courseNameOf w t =
     (case task_courseId t of
        None \<Rightarrow> None
      | Some cid \<Rightarrow> map_option course_name (find (\<lambda>c. course_id c = cid) (courses w)))"

definition recentClassroomTasks :: "world \<Rightarrow> instant \<Rightarrow> userId \<Rightarrow> task list" where
  "recentClassroomTasks w now uid =
     filter (\<lambda>t. task_userId t = uid \<and> isFromClassroom t \<and> createdAt t \<ge> getTime now - 5 * 60 * 1000)
            (tasks w)"

text \<open>The body of the loop of \<open>SyncJob.run\<close> for one connection, with its \<open>try\<close>/\<open>catch\<close>.\<close>

definition syncConnection :: "env \<Rightarrow> instant \<Rightarrow> string \<Rightarrow> connection \<Rightarrow> unit io" where
  "syncConnection E now userMail conn =
     catch
       (bind (syncCourses E now (conn_userId conn)) (\<lambda>_.
        bind (checkForNewTasks E now (conn_userId conn)) (\<lambda>(hasNew, count).
        bind (if hasNew
              then (\<lambda>w. forEach (\<lambda>t.
                      bind (sendNewTaskNotification E now (conn_userId conn) (title t) (courseNameOf w t))
                           (\<lambda>_. ret ()))
                    (recentClassroomTasks w now (conn_userId conn)) w)
              else ret ()) (\<lambda>_.
        setLastSyncAt now (conn_id conn)))))
       (\<lambda>e. emit (ConsoleError (''[SYNC] Error syncing user '' @ userMail @ '':'') e))"

definition syncableConnections :: "world \<Rightarrow> connection list" where
  "syncableConnections w = filter (\<lambda>c. conn_syncEnabled c \<and> accessToken c \<noteq> []) (connections w)"

definition syncJob_run :: "env \<Rightarrow> instant \<Rightarrow> unit io" where
  "syncJob_run E now = (\<lambda>w.
     forEach (\<lambda>conn. syncConnection E now (userEmail w (conn_userId conn)) conn)
             (syncableConnections w) w)"

section \<open>Notions used to state the properties\<close>

subsection \<open>Reminder passes\<close>

text \<open>A sequence of passes of \<open>checkTaskDueReminders\<close> for one user, each at its own clock
  reading and with the preferences loaded for it. A pass that throws leaves the state it has
  reached (the cron callback logs the error and the next firing starts from there).\<close>

fun dueTicks :: "env \<Rightarrow> userId \<Rightarrow> (instant \<times> notificationPreference option) list \<Rightarrow> world \<Rightarrow> world" where
  "dueTicks E uid [] w = w"
| "dueTicks E uid ((now, prefs) # ticks) w =
     dueTicks E uid ticks (snd (checkTaskDueReminders E now uid prefs w))"

text \<open>The number of due reminders of \<open>hoursLeft\<close> hours raised for the task \<open>i\<close>.\<close>

fun isDueCall :: "nat \<Rightarrow> int \<Rightarrow> event \<Rightarrow> bool" where
  "isDueCall i h (TaskDueCall j uid ttl h') = (j = i \<and> h' = h)"
| "isDueCall i h ev = False"

definition dueCalls :: "nat \<Rightarrow> int \<Rightarrow> event list \<Rightarrow> nat" where
  "dueCalls i h tr = length (filter (isDueCall i h) tr)"

fun isExpoPush :: "event \<Rightarrow> bool" where
  "isExpoPush (ExpoPush toks m) = True"
| "isExpoPush ev = False"

text \<open>The due windows: more than 23 and at most 24 hours, more than 0 and at most 1 hour
  between the clock reading and the due date.\<close>

definition inWindow24 :: "instant \<Rightarrow> int \<Rightarrow> bool" where
  "inWindow24 now due = (due - getTime now \<le> 24 * hourMs \<and> due - getTime now > 23 * hourMs)"

definition inWindow1 :: "instant \<Rightarrow> int \<Rightarrow> bool" where
  "inWindow1 now due = (due - getTime now \<le> 1 * hourMs \<and> due - getTime now > 0)"

definition isPending :: "task \<Rightarrow> bool" where
  "isPending t = (status t = PENDING \<or> status t = IN_PROGRESS)"

text \<open>The push gateway answers every batch (it never throws).\<close>

definition pushNeverThrows :: "env \<Rightarrow> bool" where
  "pushNeverThrows E = (\<forall>toks m. \<exists>r. expoPush E toks m = Inr r)"

text \<open>\<open>sendToUser\<close> does not deliver to the user at this clock reading: quiet hours apply, or
  the user has no active push token.\<close>

definition suppressed :: "world \<Rightarrow> userId \<Rightarrow> instant \<Rightarrow> bool" where
  "suppressed w uid now = (inQuietHours (findPrefs w uid) now \<or> activeTokens w uid = [])"

definition flagged24 :: "world \<Rightarrow> nat \<Rightarrow> bool" where
  "flagged24 w i = list_all (\<lambda>t. task_id t = i \<longrightarrow> notified24h t) (tasks w)"

definition flagged1 :: "world \<Rightarrow> nat \<Rightarrow> bool" where
  "flagged1 w i = list_all (\<lambda>t. task_id t = i \<longrightarrow> notified1h t) (tasks w)"

text \<open>What one pass decides for a loaded row: whether it raises the 24-hour and the 1-hour
  reminder.\<close>

definition fires24 :: "instant \<Rightarrow> notificationPreference option \<Rightarrow> task \<Rightarrow> bool" where
  "fires24 now prefs t =
     (case dueDate t of
        None \<Rightarrow> False
      | Some due \<Rightarrow> notFalse prefs taskDue24hEnabled \<and> \<not> notified24h t \<and> inWindow24 now due)"

definition fires1 :: "instant \<Rightarrow> notificationPreference option \<Rightarrow> task \<Rightarrow> bool" where
  "fires1 now prefs t =
     (case dueDate t of
        None \<Rightarrow> False
      | Some due \<Rightarrow> notFalse prefs taskDue1hEnabled \<and> \<not> notified1h t \<and> inWindow1 now due)"

definition firesH :: "int \<Rightarrow> instant \<Rightarrow> notificationPreference option \<Rightarrow> task \<Rightarrow> bool" where
  "firesH h now prefs t = (h = 24 \<and> fires24 now prefs t \<or> h = 1 \<and> fires1 now prefs t)"

definition raiseFlags :: "bool \<Rightarrow> bool \<Rightarrow> task \<Rightarrow> task" where
  "raiseFlags a b t = t\<lparr>notified24h := notified24h t \<or> a, notified1h := notified1h t \<or> b\<rparr>"

definition dueStep :: "instant \<Rightarrow> notificationPreference option \<Rightarrow> task \<Rightarrow> task" where
  "dueStep now prefs t = raiseFlags (fires24 now prefs t) (fires1 now prefs t) t"

text \<open>The senders touch the push tokens and the trace only, and add push calls only.\<close>

definition pushFrame :: "world \<Rightarrow> world \<Rightarrow> bool" where
  "pushFrame w w' =
     (\<exists>p evs. w' = w\<lparr>pushTokens := p, trace := trace w @ evs\<rparr> \<and> list_all isExpoPush evs)"

text \<open>A pass cannot throw for this user: the gateway answers, or nothing is delivered.\<close>

definition safe :: "env \<Rightarrow> world \<Rightarrow> userId \<Rightarrow> instant \<Rightarrow> bool" where
  "safe E w uid now = (pushNeverThrows E \<or> suppressed w uid now)"

text \<open>The shape of the state after the loop body for one loaded row: which flags it has
  raised (\<open>b24\<close>, \<open>b1\<close>) and which due calls it has made (\<open>evs\<close>).\<close>

definition oneTaskPost :: "env \<Rightarrow> instant \<Rightarrow> userId \<Rightarrow> notificationPreference option \<Rightarrow> task \<Rightarrow> world
   \<Rightarrow> (error + unit) \<Rightarrow> bool \<Rightarrow> bool \<Rightarrow> pushToken list \<Rightarrow> event list \<Rightarrow> bool" where
  "oneTaskPost E now uid prefs t w r b24 b1 p evs =
    ((b24 \<longrightarrow> fires24 now prefs t) \<and> (b1 \<longrightarrow> fires1 now prefs t)
   \<and> (\<forall>i h. dueCalls i h evs \<le> (if task_id t = i \<and> firesH h now prefs t then 1 else 0))
   \<and> (safe E w uid now \<longrightarrow> r = Inr () \<and> b24 = fires24 now prefs t \<and> b1 = fires1 now prefs t
        \<and> (\<forall>i h. dueCalls i h evs = (if task_id t = i \<and> firesH h now prefs t then 1 else 0)))
   \<and> (suppressed w uid now \<longrightarrow> p = pushTokens w \<and> filter isExpoPush evs = []))"

text \<open>A row after some passes: the same row with flags possibly raised.\<close>

definition raised :: "task \<Rightarrow> task \<Rightarrow> bool" where
  "raised a b = (\<exists>x y. b = raiseFlags x y a)"

text \<open>The rows \<open>checkTaskDueReminders\<close> loads for a user.\<close>

definition eligible :: "userId \<Rightarrow> task \<Rightarrow> bool" where
  "eligible uid t = (task_userId t = uid \<and> (status t = PENDING \<or> status t = IN_PROGRESS) \<and> dueDate t \<noteq> None)"

text \<open>Some pass of the sequence is evaluated inside the window with the toggle not disabled.\<close>

definition hit24 :: "(instant \<times> notificationPreference option) list \<Rightarrow> int \<Rightarrow> bool" where
  "hit24 ticks due = (\<exists>(now, prefs) \<in> set ticks. notFalse prefs taskDue24hEnabled \<and> inWindow24 now due)"

definition hit1 :: "(instant \<times> notificationPreference option) list \<Rightarrow> int \<Rightarrow> bool" where
  "hit1 ticks due = (\<exists>(now, prefs) \<in> set ticks. notFalse prefs taskDue1hEnabled \<and> inWindow1 now due)"

subsection \<open>Synchronisation passes\<close>

text \<open>The calls of the Classroom API made with the credentials of one account.\<close>

fun isUpstreamCallOf :: "userId \<Rightarrow> event \<Rightarrow> bool" where
  "isUpstreamCallOf u (RefreshAccessToken v) = (v = u)"
| "isUpstreamCallOf u (CoursesList v) = (v = u)"
| "isUpstreamCallOf u (TeachersList v cid) = (v = u)"
| "isUpstreamCallOf u (CourseWorkList v cid) = (v = u)"
| "isUpstreamCallOf u ev = False"

definition upstreamCalls :: "userId \<Rightarrow> event list \<Rightarrow> event list" where
  "upstreamCalls u tr = filter (isUpstreamCallOf u) tr"

text \<open>The user has a local task linked to the upstream assignment.\<close>

definition hasTask :: "task list \<Rightarrow> userId \<Rightarrow> string \<Rightarrow> bool" where
  "hasTask T uid gid = (\<exists>t \<in> set T. task_userId t = uid \<and> googleTaskId t = Some gid)"

text \<open>The unique key of a course row.\<close>

definition courseKey :: "course \<Rightarrow> userId \<times> string" where
  "courseKey c = (course_userId c, googleCourseId c)"

text \<open>A row created by \<open>syncTasks\<close> for an upstream assignment.\<close>

definition newRowFor :: "env \<Rightarrow> instant \<Rightarrow> userId \<Rightarrow> gWork \<Rightarrow> task \<Rightarrow> bool" where
  "newRowFor E now uid work row =
     (task_userId row = uid \<and> googleTaskId row = Some (gw_id work) \<and> isFromClassroom row
      \<and> dueDate row = parseDueDate E work \<and> createdAt row = getTime now)"

text \<open>What a pass of \<open>syncTasks\<close> over the courses \<open>cs\<close> has done when it started from the
  task table \<open>T\<close>, created the rows \<open>new\<close> and logged \<open>evs\<close>.\<close>

definition coursesPost :: "env \<Rightarrow> instant \<Rightarrow> userId \<Rightarrow> course list \<Rightarrow> task list \<Rightarrow> task list \<Rightarrow> event list \<Rightarrow> bool" where
  "coursesPost E now uid cs T new evs =
     ((\<forall>c \<in> set cs. \<forall>ws. courseWorkList E uid (googleCourseId c) = Inr ws \<longrightarrow>
          (\<forall>x \<in> set ws. hasTask (T @ new) uid (gw_id x)))
    \<and> (\<forall>c \<in> set cs. \<forall>e. courseWorkList E uid (googleCourseId c) = Inl e \<longrightarrow>
          ConsoleError (''Error syncing course '' @ course_name c @ '':'') e \<in> set evs)
    \<and> ((\<forall>c \<in> set cs. \<forall>ws. courseWorkList E uid (googleCourseId c) = Inr ws \<longrightarrow>
          (\<forall>x \<in> set ws. hasTask T uid (gw_id x))) \<longrightarrow> new = [])
    \<and> (\<forall>row \<in> set new. \<exists>c \<in> set cs. \<exists>ws. courseWorkList E uid (googleCourseId c) = Inr ws \<and>
          (\<exists>x \<in> set ws. newRowFor E now uid x row)))"

text \<open>The due date of a row created for an upstream assignment: none without an upstream
  date; with a full upstream date, its year, month and day at 23:59 when there is no
  upstream time, and at the upstream hours and minutes when both are given and not zero.\<close>

definition dueDateAsImported :: "env \<Rightarrow> gWork \<Rightarrow> task \<Rightarrow> bool" where
  "dueDateAsImported E work row =
     ((gw_dueDate work = None \<longrightarrow> dueDate row = None)
    \<and> (\<forall>y m d. gw_dueDate work = Some \<lparr>gd_year = Some y, gd_month = Some m, gd_day = Some d\<rparr>
            \<and> y \<noteq> 0 \<and> m \<noteq> 0 \<and> d \<noteq> 0 \<longrightarrow>
          (gw_dueTime work = None \<longrightarrow> dueDate row = Some (localDate E y (m - 1) d 23 59))
        \<and> (\<forall>h mi. gw_dueTime work = Some \<lparr>gt_hours = Some h, gt_minutes = Some mi\<rparr>
                \<and> h \<noteq> 0 \<and> mi \<noteq> 0 \<longrightarrow>
              dueDate row = Some (localDate E y (m - 1) d h mi))))"

subsection \<open>Course upserts as table transformers\<close>

text \<open>What \<open>fetchTeacherName\<close> returns, what the \<open>update\<close> branch of the upsert writes, and
  the effect of one upsert and of a list of updates on the course table.\<close>

definition teacherNameOf :: "env \<Rightarrow> client \<Rightarrow> gCourse \<Rightarrow> string" where
  "teacherNameOf E cl gc =
     (case teachersList E cl (gc_id gc) of
        Inl e \<Rightarrow> []
      | Inr teachers \<Rightarrow>
          (case find (\<lambda>t. teacher_userId t = gc_ownerId gc) teachers of
             None \<Rightarrow> []
           | Some owner \<Rightarrow> orString (teacher_fullName owner) []))"

definition updCourse :: "gCourse \<Rightarrow> string \<Rightarrow> course \<Rightarrow> course" where
  "updCourse gc tname c =
     c\<lparr>course_name := orString (gc_name gc) ''Unnamed Course'',
       course_section := keepOr (gc_section gc) (course_section c),
       course_description := keepOr (gc_description gc) (course_description c),
       teacherName := tname\<rparr>"

definition upsertRows :: "env \<Rightarrow> userId \<Rightarrow> course list \<Rightarrow> gCourse \<Rightarrow> course list" where
  "upsertRows E uid T gc =
     (if (uid, gc_id gc) \<in> courseKey ` set T
      then map (\<lambda>c. if courseKey c = (uid, gc_id gc) then updCourse gc (teacherNameOf E uid gc) c else c) T
      else T @ [\<lparr>course_id = nextId (map course_id T),
                 course_userId = uid,
                 googleCourseId = gc_id gc,
                 course_name = orString (gc_name gc) ''Unnamed Course'',
                 course_section = gc_section gc,
                 course_description = gc_description gc,
                 teacherName = teacherNameOf E uid gc,
                 course_syncEnabled = default_course_syncEnabled E\<rparr>])"

fun applyAll :: "env \<Rightarrow> userId \<Rightarrow> gCourse list \<Rightarrow> course \<Rightarrow> course" where
  "applyAll E uid [] c = c"
| "applyAll E uid (g # gs) c =
     applyAll E uid gs (if courseKey c = (uid, gc_id g) then updCourse g (teacherNameOf E uid g) c else c)"

text \<open>What a list of updates does to one column of a row with key \<open>k\<close>, when the update
  of the upstream course \<open>g\<close> writes \<open>wr g\<close> to it; and the functions that leave every value
  as it is or send every value to the same one.\<close>

fun foldField :: "(gCourse \<Rightarrow> 'a \<Rightarrow> 'a) \<Rightarrow> userId \<times> string \<Rightarrow> userId \<Rightarrow> gCourse list \<Rightarrow> 'a \<Rightarrow> 'a" where
  "foldField wr k uid [] x = x"
| "foldField wr k uid (g # gs) x = foldField wr k uid gs (if k = (uid, gc_id g) then wr g x else x)"

definition idOrConst :: "('a \<Rightarrow> 'a) \<Rightarrow> bool" where
  "idOrConst h = ((\<forall>x. h x = x) \<or> (\<exists>v. \<forall>x. h x = v))"

subsection \<open>Sync passes over the connections\<close>

text \<open>Between two states, the connection \<open>c\<close> has stayed where it was, every row has kept its
  id, and no call of the Classroom API has been made for the account of \<open>c\<close>.\<close>

definition keeps :: "connection \<Rightarrow> world \<Rightarrow> world \<Rightarrow> bool" where
  "keeps c w w' =
     (list_all2 (\<lambda>a b. conn_id b = conn_id a \<and> (a = c \<longrightarrow> b = c)) (connections w) (connections w')
      \<and> upstreamCalls (conn_userId c) (trace w') = upstreamCalls (conn_userId c) (trace w))"

section \<open>Example data\<close>

definition clockAt :: "int \<Rightarrow> nat \<Rightarrow> nat \<Rightarrow> instant" where
  "clockAt ms h m = \<lparr>getTime = ms, getHours = h, getMinutes = m, getDay = 1, isoDate = ''2024-03-04''\<rparr>"

text \<open>The runtime of the examples converts a run of decimal digits to its value and takes an
  exact result as it is, which is what a double does on the small integers of a time of day.
  The examples hold no schedule row, so no other string is converted.\<close>

definition isDigit :: "char \<Rightarrow> bool" where
  "isDigit c = (48 \<le> (of_char c :: nat) \<and> (of_char c :: nat) \<le> 57)"

definition exNumber :: "string \<Rightarrow> jsNumber" where
  "exNumber s = (if list_all isDigit s
                 then Fin (of_int (foldl (\<lambda>acc c. acc * 10 + (int (of_char c) - 48)) 0 s))
                 else NaN)"

definition exEnv :: env where
  "exEnv = \<lparr>refreshAccessToken = (\<lambda>c. Inr \<lparr>cred_access_token = ''fresh'', cred_refresh_token = None,
                                           cred_expiry_date = None\<rparr>),
            coursesList = (\<lambda>u. Inr []),
            teachersList = (\<lambda>u c. Inr []),
            courseWorkList = (\<lambda>u c. Inr []),
            expoPush = (\<lambda>toks m. Inr None),
            localDate = (\<lambda>y mo d h mi. ((((y * 12 + mo) * 31 + d) * 24 + h) * 60 + mi) * 60000),
            Number = exNumber,
            roundDouble = Fin,
            default_course_syncEnabled = True,
            default_task_status = PENDING,
            default_notified24h = False,
            default_notified1h = False\<rparr>"

text \<open>A pending task of user \<open>u1\<close>, due at hour 100.\<close>

definition exTask :: task where
  "exTask = \<lparr>task_id = 1, task_userId = ''u1'', title = ''Essay'', task_description = None,
             isFromClassroom = False, googleTaskId = None, task_courseId = None,
             dueDate = Some 360000000, task_priority = MEDIUM, status = PENDING,
             notified24h = False, notified1h = False, createdAt = 0\<rparr>"

definition exWorld :: world where
  "exWorld = \<lparr>connections = [], courses = [], tasks = [exTask], notificationPrefs = [],
              pushTokens = [\<lparr>pt_userId = ''u1'', token = ''tok1'', isActive = True\<rparr>],
              users = [\<lparr>user_id = ''u1'', email = ''u1@example.org''\<rparr>],
              classSchedules = [], gymSchedules = [], propedeuticoSchedules = [], trace = []\<rparr>"

text \<open>Four passes: two inside the 24-hour window (24 h and 23 h 55 min before the due date),
  two inside the 1-hour window (30 and 25 minutes before).\<close>

definition exTicks :: "(instant \<times> notificationPreference option) list" where
  "exTicks = [(clockAt 273600000 4 0, None), (clockAt 273900000 4 5, None),
              (clockAt 358200000 3 30, None), (clockAt 358500000 3 35, None)]"

text \<open>The same passes for a user who has switched both due reminders off.\<close>

definition exPrefsOff :: notificationPreference where
  "exPrefsOff = \<lparr>pref_userId = ''u1'', newTasksEnabled = True, classRemindersEnabled = True,
                 classReminderMinutes = 15, gymRemindersEnabled = True, propedeuticoEnabled = True,
                 taskDue24hEnabled = False, taskDue1hEnabled = False,
                 quietHoursEnabled = False, quietHoursStart = None, quietHoursEnd = None\<rparr>"

definition exWorldOff :: world where
  "exWorldOff = exWorld\<lparr>notificationPrefs := [exPrefsOff]\<rparr>"

definition exTicksOff :: "(instant \<times> notificationPreference option) list" where
  "exTicksOff = map (\<lambda>(now, p). (now, Some exPrefsOff)) exTicks"

text \<open>Quiet hours from 22:00 to 07:00, and a pass at 23:00, 24 hours before the due date.\<close>

definition exPrefsQuiet :: notificationPreference where
  "exPrefsQuiet = \<lparr>pref_userId = ''u1'', newTasksEnabled = True, classRemindersEnabled = True,
                   classReminderMinutes = 15, gymRemindersEnabled = True, propedeuticoEnabled = True,
                   taskDue24hEnabled = True, taskDue1hEnabled = True,
                   quietHoursEnabled = True, quietHoursStart = Some ''22:00'', quietHoursEnd = Some ''07:00''\<rparr>"

definition exWorldQuiet :: world where
  "exWorldQuiet = exWorld\<lparr>notificationPrefs := [exPrefsQuiet]\<rparr>"

definition exNow23 :: instant where
  "exNow23 = clockAt 273600000 23 0"

definition exMessage :: pushMessage where
  "exMessage = \<lparr>msg_title = ''Hello'', msg_body = ''World'', msg_type = ''test''\<rparr>"

text \<open>An account linked by OAuth whose access token expires at instant 5000.\<close>

definition exConn :: connection where
  "exConn = \<lparr>conn_id = 1, conn_userId = ''u1'', accessToken = ''at'', refreshToken = ''rt'',
             tokenExpiry = 5000, conn_syncEnabled = True, lastSyncAt = None\<rparr>"

definition exWorldConn :: world where
  "exWorldConn = exWorld\<lparr>connections := [exConn]\<rparr>"

text \<open>Three upstream courses of \<open>u1\<close>; the assignment list of the second one cannot be
  fetched. The first assignment has no due date, the second a date without a time, the
  third a date and a time.\<close>

definition exWorkA1 :: gWork where
  "exWorkA1 = \<lparr>gw_id = ''a1'', gw_title = Some ''Essay 1'', gw_description = None,
               gw_dueDate = None, gw_dueTime = None\<rparr>"

definition exWorkC1 :: gWork where
  "exWorkC1 = \<lparr>gw_id = ''c1'', gw_title = Some ''Lab report'', gw_description = None,
               gw_dueDate = Some \<lparr>gd_year = Some 2025, gd_month = Some 3, gd_day = Some 14\<rparr>,
               gw_dueTime = None\<rparr>"

definition exWorkC2 :: gWork where
  "exWorkC2 = \<lparr>gw_id = ''c2'', gw_title = None, gw_description = None,
               gw_dueDate = Some \<lparr>gd_year = Some 2025, gd_month = Some 3, gd_day = Some 15\<rparr>,
               gw_dueTime = Some \<lparr>gt_hours = Some 10, gt_minutes = Some 30\<rparr>\<rparr>"

definition exGCourses :: "gCourse list" where
  "exGCourses =
     [\<lparr>gc_id = ''gA'', gc_ownerId = Some ''t1'', gc_name = Some ''Algebra'', gc_section = None, gc_description = None\<rparr>,
      \<lparr>gc_id = ''gB'', gc_ownerId = Some ''t2'', gc_name = Some ''Biology'', gc_section = Some ''B1'', gc_description = None\<rparr>,
      \<lparr>gc_id = ''gC'', gc_ownerId = None, gc_name = None, gc_section = None, gc_description = Some ''Lab''\<rparr>]"

definition exEnvSync :: env where
  "exEnvSync = exEnv\<lparr>
     coursesList := (\<lambda>u. if u = ''u1'' then Inr exGCourses else Inl (External ''403'')),
     teachersList := (\<lambda>u cid. if cid = ''gA''
                        then Inr [\<lparr>teacher_userId = Some ''t1'', teacher_fullName = Some ''Ada''\<rparr>]
                        else Inl (External ''404'')),
     courseWorkList := (\<lambda>u cid. if cid = ''gA'' then Inr [exWorkA1]
                          else if cid = ''gB'' then Inl (External ''503'')
                          else Inr [exWorkC1, exWorkC2])\<rparr>"

definition exCourses :: "course list" where
  "exCourses =
     [\<lparr>course_id = 1, course_userId = ''u1'', googleCourseId = ''gA'', course_name = ''Algebra'',
       course_section = None, course_description = None, teacherName = ''Ada'', course_syncEnabled = True\<rparr>,
      \<lparr>course_id = 2, course_userId = ''u1'', googleCourseId = ''gB'', course_name = ''Biology'',
       course_section = Some ''B1'', course_description = None, teacherName = [], course_syncEnabled = True\<rparr>,
      \<lparr>course_id = 3, course_userId = ''u1'', googleCourseId = ''gC'', course_name = ''Unnamed Course'',
       course_section = None, course_description = Some ''Lab'', teacherName = [], course_syncEnabled = True\<rparr>]"

definition exWorldSync :: world where
  "exWorldSync = exWorld\<lparr>connections := [exConn], courses := exCourses\<rparr>"

definition exNow1000 :: instant where
  "exNow1000 = clockAt 1000 0 0"

text \<open>The rows a first import creates from these lists.\<close>

definition exCreated :: "task list" where
  "exCreated =
     [\<lparr>task_id = 2, task_userId = ''u1'', title = ''Essay 1'', task_description = None,
       isFromClassroom = True, googleTaskId = Some ''a1'', task_courseId = Some 1,
       dueDate = None, task_priority = MEDIUM, status = PENDING,
       notified24h = False, notified1h = False, createdAt = 1000\<rparr>,
      \<lparr>task_id = 3, task_userId = ''u1'', title = ''Lab report'', task_description = None,
       isFromClassroom = True, googleTaskId = Some ''c1'', task_courseId = Some 3,
       dueDate = Some 65091772740000, task_priority = MEDIUM, status = PENDING,
       notified24h = False, notified1h = False, createdAt = 1000\<rparr>,
      \<lparr>task_id = 4, task_userId = ''u1'', title = ''Untitled Task'', task_description = None,
       isFromClassroom = True, googleTaskId = Some ''c2'', task_courseId = Some 3,
       dueDate = Some 65091810600000, task_priority = MEDIUM, status = PENDING,
       notified24h = False, notified1h = False, createdAt = 1000\<rparr>]"

definition exNow9000 :: instant where
  "exNow9000 = clockAt 9000 0 0"

text \<open>A second account linked in email-only mode: no access token, sync disabled.\<close>

definition exConnB :: connection where
  "exConnB = \<lparr>conn_id = 2, conn_userId = ''u2'', accessToken = [], refreshToken = [],
              tokenExpiry = 0, conn_syncEnabled = False, lastSyncAt = None\<rparr>"

definition exUsers :: "user list" where
  "exUsers = [\<lparr>user_id = ''u1'', email = ''u1@example.org''\<rparr>, \<lparr>user_id = ''u2'', email = ''u2@example.org''\<rparr>]"

definition exWorldJob :: world where
  "exWorldJob = exWorld\<lparr>connections := [exConn, exConnB], users := exUsers\<rparr>"

text \<open>Two accounts linked by OAuth; the course list of the first cannot be fetched.\<close>

definition exConnC :: connection where
  "exConnC = \<lparr>conn_id = 3, conn_userId = ''u2'', accessToken = ''at2'', refreshToken = ''rt2'',
              tokenExpiry = 5000, conn_syncEnabled = True, lastSyncAt = None\<rparr>"

definition exWorldJob2 :: world where
  "exWorldJob2 = exWorld\<lparr>connections := [exConn, exConnC], users := exUsers\<rparr>"

definition exEnvSyncFails :: env where
  "exEnvSyncFails = exEnv\<lparr>coursesList := (\<lambda>u. if u = ''u1'' then Inl (External ''500'') else Inr [])\<rparr>"

text \<open>Two users with an active push token and a pending task due at hour 100 each; the push
  gateway cannot be reached for the first user's token. The pass is evaluated 24 hours
  before the due date.\<close>

definition exTaskB :: task where
  "exTaskB = exTask\<lparr>task_id := 2, task_userId := ''u2'', title := ''Quiz''\<rparr>"

definition exWorldTwo :: world where
  "exWorldTwo = exWorld\<lparr>tasks := [exTask, exTaskB],
                         pushTokens := [\<lparr>pt_userId = ''u1'', token = ''tok1'', isActive = True\<rparr>,
                                        \<lparr>pt_userId = ''u2'', token = ''tok2'', isActive = True\<rparr>],
                         users := exUsers\<rparr>"

definition exEnvPushFails :: env where
  "exEnvPushFails = exEnv\<lparr>expoPush := (\<lambda>toks m. if ''tok1'' \<in> set toks
                                                      then Inl (External ''network'') else Inr None)\<rparr>"

definition exTick24 :: instant where
  "exTick24 = clockAt 273600000 4 0"

section \<open>The io combinators\<close>

lemma bind_apply: "bind m f w = (case m w of (Inl e, w') \<Rightarrow> (Inl e, w') | (Inr x, w') \<Rightarrow> f x w')"
  by (simp add: bind_def)
lemma ret_apply: "ret x w = (Inr x, w)" by (simp add: ret_def)
lemma throw_apply: "throw e w = (Inl e, w)" by (simp add: throw_def)
lemma emit_apply: "emit ev w = (Inr (), w\<lparr>trace := trace w @ [ev]\<rparr>)" by (simp add: emit_def)
lemma catch_apply: "catch m h w = (case m w of (Inl e, w') \<Rightarrow> h e w' | (Inr x, w') \<Rightarrow> (Inr x, w'))"
  by (simp add: catch_def)

lemmas io_simps = bind_apply ret_apply throw_apply emit_apply catch_apply

lemma pushFrame_refl: "pushFrame w w"
  unfolding pushFrame_def by (rule exI[of _ "pushTokens w"], rule exI[of _ "[]"]) simp

lemma pushFrame_trans: 
  assumes "pushFrame w w'" "pushFrame w' w''" shows "pushFrame w w''"
proof -
  from assms(1) obtain p evs where 1: "w' = w\<lparr>pushTokens := p, trace := trace w @ evs\<rparr>" "list_all isExpoPush evs"
    unfolding pushFrame_def by blast
  from assms(2) obtain p' evs' where 2: "w'' = w'\<lparr>pushTokens := p', trace := trace w' @ evs'\<rparr>" "list_all isExpoPush evs'"
    unfolding pushFrame_def by blast
  have "w'' = w\<lparr>pushTokens := p', trace := trace w @ (evs @ evs')\<rparr>" using 1 2 by simp
  moreover have "list_all isExpoPush (evs @ evs')" using 1 2 by simp
  ultimately show ?thesis unfolding pushFrame_def by blast
qed

lemma deactivateToken_frame: "pushFrame w (snd (deactivateToken t w))"
  unfolding pushFrame_def deactivateToken_def
  by (rule exI, rule exI[of _ "[]"]) simp

lemma deactivateToken_ok: "fst (deactivateToken t w) = Inr ()"
  by (simp add: deactivateToken_def)

lemma handleTickets_frame: "pushFrame w (snd (handleTickets toks i ts w))"
proof (induction ts arbitrary: i w)
  case Nil
  then show ?case by (simp add: io_simps pushFrame_refl)
next
  case (Cons t ts)
  show ?case
  proof (cases "ticket_status t = ''error'' \<and> ticket_error t = Some ''DeviceNotRegistered''")
    case True
    obtain w1 where w1: "deactivateToken (nth_opt toks i) w = (Inr (), w1)"
      using deactivateToken_ok[of "nth_opt toks i" w] by (cases "deactivateToken (nth_opt toks i) w") auto
    have "pushFrame w w1" using deactivateToken_frame[of w "nth_opt toks i"] w1 by simp
    from pushFrame_trans[OF this Cons.IH[of w1 "Suc i"]] show ?thesis
      using True w1 by (simp add: io_simps)
  next
    case False
    then show ?thesis using Cons.IH[of w "Suc i"] by (auto simp add: io_simps)
  qed
qed

lemma handleTickets_ok: "fst (handleTickets toks i ts w) = Inr ()"
proof (induction ts arbitrary: i w)
  case Nil
  then show ?case by (simp add: io_simps)
next
  case (Cons t ts)
  show ?case using Cons.IH 
    by (auto simp: io_simps deactivateToken_def split: prod.splits sum.splits)
qed

lemma emit_ExpoPush_frame: "pushFrame w (w\<lparr>trace := trace w @ [ExpoPush toks m]\<rparr>)"
  unfolding pushFrame_def
  by (rule exI[of _ "pushTokens w"], rule exI[of _ "[ExpoPush toks m]"]) simp

lemma sendExpoPush_frame: "pushFrame w (snd (sendExpoPush E toks m w))"
proof -
  let ?w1 = "w\<lparr>trace := trace w @ [ExpoPush toks m]\<rparr>"
  have f1: "pushFrame w ?w1" by (rule emit_ExpoPush_frame)
  show ?thesis
  proof (cases "expoPush E toks m")
    case (Inl e)
    then show ?thesis using f1 by (simp add: sendExpoPush_def io_simps)
  next
    case (Inr result)
    show ?thesis
    proof (cases result)
      case None
      then show ?thesis using f1 Inr by (simp add: sendExpoPush_def io_simps)
    next
      case (Some data)
      have "pushFrame ?w1 (snd (handleTickets toks 0 data ?w1))" by (rule handleTickets_frame)
      from pushFrame_trans[OF f1 this] show ?thesis
        using Inr Some handleTickets_ok[of toks 0 data ?w1]
        by (cases "handleTickets toks 0 data ?w1") (simp add: sendExpoPush_def io_simps)
    qed
  qed
qed

lemma sendExpoPush_ok: 
  assumes "expoPush E toks m = Inr r" shows "fst (sendExpoPush E toks m w) = Inr r"
proof (cases r)
  case None
  then show ?thesis using assms by (simp add: sendExpoPush_def io_simps)
next
  case (Some data)
  let ?w1 = "w\<lparr>trace := trace w @ [ExpoPush toks m]\<rparr>"
  obtain w2 where "handleTickets toks 0 data ?w1 = (Inr (), w2)"
    using handleTickets_ok[of toks 0 data ?w1] by (cases "handleTickets toks 0 data ?w1") simp
  then show ?thesis using assms Some by (simp add: sendExpoPush_def io_simps)
qed

lemma sendToUser_frame: "pushFrame w (snd (sendToUser E now uid m w))"
  using sendExpoPush_frame[of w E "map token (activeTokens w uid)" m]
  by (cases "sendExpoPush E (map token (activeTokens w uid)) m w")
     (auto simp: sendToUser_def Let_def io_simps pushFrame_refl split: sum.splits)

lemma sendToUser_suppressed: "suppressed w uid now \<Longrightarrow> sendToUser E now uid m w = (Inr (if inQuietHours (findPrefs w uid) now then QuietHours else NoActiveTokens), w)"
  by (auto simp: sendToUser_def suppressed_def)

lemma sendToUser_ok: "pushNeverThrows E \<Longrightarrow> \<exists>r. fst (sendToUser E now uid m w) = Inr r"
proof -
  assume a: "pushNeverThrows E"
  then obtain r where "expoPush E (map token (activeTokens w uid)) m = Inr r"
    unfolding pushNeverThrows_def by blast
  from sendExpoPush_ok[OF this, of w] show ?thesis
    by (cases "sendExpoPush E (map token (activeTokens w uid)) m w")
       (auto simp: sendToUser_def Let_def io_simps)
qed

lemma sendTaskDueNotification_frame: "pushFrame w (snd (sendTaskDueNotification E now uid ttl h w))"
  by (simp add: sendTaskDueNotification_def Let_def pushFrame_refl sendToUser_frame)

lemma sendTaskDueNotification_suppressed:
  "suppressed w uid now \<Longrightarrow> \<exists>r. sendTaskDueNotification E now uid ttl h w = (Inr r, w)"
  by (simp add: sendTaskDueNotification_def Let_def sendToUser_suppressed)

lemma sendTaskDueNotification_ok:
  "pushNeverThrows E \<Longrightarrow> \<exists>r. fst (sendTaskDueNotification E now uid ttl h w) = Inr r"
  by (simp add: sendTaskDueNotification_def Let_def sendToUser_ok)

section \<open>Due reminders: one loaded row\<close>

lemma suppressed_frame [simp]:
  "suppressed (w\<lparr>trace := tr\<rparr>) uid now = suppressed w uid now"
  "suppressed (w\<lparr>tasks := ts\<rparr>) uid now = suppressed w uid now"
  by (simp_all add: suppressed_def findPrefs_def activeTokens_def)

lemma raiseFlags_simps [simp]:
  "raiseFlags False False t = t"
  "task_id (raiseFlags a b t) = task_id t"
  "task_userId (raiseFlags a b t) = task_userId t"
  "dueDate (raiseFlags a b t) = dueDate t"
  "status (raiseFlags a b t) = status t"
  "title (raiseFlags a b t) = title t"
  "notified24h (raiseFlags a b t) = (notified24h t \<or> a)"
  "notified1h (raiseFlags a b t) = (notified1h t \<or> b)"
  "raiseFlags a b (raiseFlags c d t) = raiseFlags (c \<or> a) (d \<or> b) t"
  by (simp_all add: raiseFlags_def disj_assoc)

lemma map_raise_none [simp]:
  "map (\<lambda>y. if task_id y = j then raiseFlags False False y else y) xs = xs"
  by (induction xs) auto

lemma sendTaskDue_shape:
  "\<exists>r p evs. sendTaskDueNotification E now uid ttl h w = (r, w\<lparr>pushTokens := p, trace := trace w @ evs\<rparr>)
     \<and> list_all isExpoPush evs
     \<and> (pushNeverThrows E \<or> suppressed w uid now \<longrightarrow> (\<exists>x. r = Inr x))
     \<and> (suppressed w uid now \<longrightarrow> p = pushTokens w \<and> evs = [])"
proof (cases "suppressed w uid now")
  case True
  from sendTaskDueNotification_suppressed[OF True, of E ttl h] obtain x
    where "sendTaskDueNotification E now uid ttl h w = (Inr x, w)" by blast
  then have "sendTaskDueNotification E now uid ttl h w = (Inr x, w\<lparr>pushTokens := pushTokens w, trace := trace w @ []\<rparr>)"
    by simp
  then show ?thesis by (intro exI[of _ "Inr x"] exI[of _ "pushTokens w"] exI[of _ "[]"]) simp
next
  case False
  obtain r w' where rw: "sendTaskDueNotification E now uid ttl h w = (r, w')"
    by (cases "sendTaskDueNotification E now uid ttl h w")
  with sendTaskDueNotification_frame[of w E now uid ttl h] obtain p evs
    where sh: "w' = w\<lparr>pushTokens := p, trace := trace w @ evs\<rparr>" "list_all isExpoPush evs"
    unfolding pushFrame_def by auto
  have "pushNeverThrows E \<longrightarrow> (\<exists>x. r = Inr x)"
    using sendTaskDueNotification_ok[of E now uid ttl h w] rw by auto
  with rw sh False show ?thesis by (intro exI[of _ r] exI[of _ p] exI[of _ evs]) simp
qed

lemma block24:
  "\<exists>r b p evs. bind (emit (TaskDueCall j uid ttl 24)) (\<lambda>_.
                bind (sendTaskDueNotification E now uid ttl 24) (\<lambda>_. setNotified24h j)) w
      = (r, w\<lparr>tasks := map (\<lambda>y. if task_id y = j then raiseFlags b False y else y) (tasks w),
              pushTokens := p, trace := trace w @ TaskDueCall j uid ttl 24 # evs\<rparr>)
     \<and> list_all isExpoPush evs
     \<and> (pushNeverThrows E \<or> suppressed w uid now \<longrightarrow> r = Inr () \<and> b)
     \<and> (suppressed w uid now \<longrightarrow> p = pushTokens w \<and> evs = [])"
proof -
  let ?w1 = "w\<lparr>trace := trace w @ [TaskDueCall j uid ttl 24]\<rparr>"
  from sendTaskDue_shape[of E now uid ttl 24 ?w1] obtain r p evs where
    s: "sendTaskDueNotification E now uid ttl 24 ?w1 = (r, ?w1\<lparr>pushTokens := p, trace := trace ?w1 @ evs\<rparr>)"
    and e: "list_all isExpoPush evs"
    and ok: "pushNeverThrows E \<or> suppressed w uid now \<longrightarrow> (\<exists>x. r = Inr x)"
    and q: "suppressed w uid now \<longrightarrow> p = pushTokens w \<and> evs = []"
    by auto
  show ?thesis
  proof (cases r)
    case (Inl err)
    with s e ok q show ?thesis
      by (intro exI[of _ "Inl err"] exI[of _ False] exI[of _ p] exI[of _ evs])
         (auto simp: io_simps)
  next
    case (Inr x)
    with s e ok q show ?thesis
      by (intro exI[of _ "Inr ()"] exI[of _ True] exI[of _ p] exI[of _ evs])
         (auto simp: io_simps raiseFlags_def setNotified24h_def)
  qed
qed


lemma block1:
  "\<exists>r b p evs. bind (emit (TaskDueCall j uid ttl 1)) (\<lambda>_.
                bind (sendTaskDueNotification E now uid ttl 1) (\<lambda>_. setNotified1h j)) w
      = (r, w\<lparr>tasks := map (\<lambda>y. if task_id y = j then raiseFlags False b y else y) (tasks w),
              pushTokens := p, trace := trace w @ TaskDueCall j uid ttl 1 # evs\<rparr>)
     \<and> list_all isExpoPush evs
     \<and> (pushNeverThrows E \<or> suppressed w uid now \<longrightarrow> r = Inr () \<and> b)
     \<and> (suppressed w uid now \<longrightarrow> p = pushTokens w \<and> evs = [])"
proof -
  let ?w1 = "w\<lparr>trace := trace w @ [TaskDueCall j uid ttl 1]\<rparr>"
  from sendTaskDue_shape[of E now uid ttl 1 ?w1] obtain r p evs where
    s: "sendTaskDueNotification E now uid ttl 1 ?w1 = (r, ?w1\<lparr>pushTokens := p, trace := trace ?w1 @ evs\<rparr>)"
    and e: "list_all isExpoPush evs"
    and ok: "pushNeverThrows E \<or> suppressed w uid now \<longrightarrow> (\<exists>x. r = Inr x)"
    and q: "suppressed w uid now \<longrightarrow> p = pushTokens w \<and> evs = []"
    by auto
  show ?thesis
  proof (cases r)
    case (Inl err)
    with s e ok q show ?thesis
      by (intro exI[of _ "Inl err"] exI[of _ False] exI[of _ p] exI[of _ evs])
         (auto simp: io_simps)
  next
    case (Inr x)
    with s e ok q show ?thesis
      by (intro exI[of _ "Inr ()"] exI[of _ True] exI[of _ p] exI[of _ evs])
         (auto simp: io_simps raiseFlags_def setNotified1h_def)
  qed
qed

lemma map_raise_raise [simp]:
  "map (\<lambda>y. if task_id y = j then raiseFlags c d y else y)
       (map (\<lambda>y. if task_id y = j then raiseFlags a b y else y) xs)
   = map (\<lambda>y. if task_id y = j then raiseFlags (a \<or> c) (b \<or> d) y else y) xs"
  by (induction xs) auto

lemma suppressed_same_tokens [simp]:
  "suppressed (w\<lparr>tasks := T, pushTokens := pushTokens w, trace := tr\<rparr>) uid now = suppressed w uid now"
  by (simp add: suppressed_def findPrefs_def activeTokens_def)

lemma safe_same_tokens:
  "safe E w uid now \<Longrightarrow> (suppressed w uid now \<longrightarrow> p = pushTokens w) \<Longrightarrow>
   safe E (w\<lparr>tasks := T, pushTokens := p, trace := tr\<rparr>) uid now"
  by (auto simp: safe_def)

lemma expo_not_due: "list_all isExpoPush evs \<Longrightarrow> filter (isDueCall i h) evs = []"
proof (induction evs)
  case Nil then show ?case by simp
next
  case (Cons ev evs) then show ?case by (cases ev) auto
qed

lemma dueCalls_simps [simp]:
  "dueCalls i h [] = 0"
  "dueCalls i h (xs @ ys) = dueCalls i h xs + dueCalls i h ys"
  "dueCalls i h (TaskDueCall j u ttl h' # xs) = (if j = i \<and> h' = h then 1 else 0) + dueCalls i h xs"
  by (simp_all add: dueCalls_def)

lemma dueCalls_expo [simp]: "list_all isExpoPush evs \<Longrightarrow> dueCalls i h evs = 0"
  by (simp add: dueCalls_def expo_not_due)

lemma filter_expo_all: "list_all isExpoPush evs \<Longrightarrow> filter isExpoPush evs = evs"
  by (induction evs) auto

lemma checkOneTask_shape:
  "\<exists>r b24 b1 p evs. checkOneTask E now uid prefs t w =
       (r, w\<lparr>tasks := map (\<lambda>y. if task_id y = task_id t then raiseFlags b24 b1 y else y) (tasks w),
              pushTokens := p, trace := trace w @ evs\<rparr>)
     \<and> oneTaskPost E now uid prefs t w r b24 b1 p evs"
proof (cases "dueDate t")
  case None
  then have "checkOneTask E now uid prefs t w = (Inr (), w\<lparr>tasks := map (\<lambda>y. if task_id y = task_id t then raiseFlags False False y else y) (tasks w),
              pushTokens := pushTokens w, trace := trace w @ []\<rparr>)"
    by (simp add: checkOneTask_def io_simps)
  moreover have "oneTaskPost E now uid prefs t w (Inr ()) False False (pushTokens w) []"
    using None by (simp add: oneTaskPost_def fires24_def fires1_def firesH_def)
  ultimately show ?thesis by blast
next
  case (Some due)
  let ?j = "task_id t"
  let ?B24 = "bind (emit (TaskDueCall ?j uid (title t) 24)) (\<lambda>_.
                bind (sendTaskDueNotification E now uid (title t) 24) (\<lambda>_. setNotified24h ?j))"
  let ?B1 = "bind (emit (TaskDueCall ?j uid (title t) 1)) (\<lambda>_.
                bind (sendTaskDueNotification E now uid (title t) 1) (\<lambda>_. setNotified1h ?j))"
  have g24: "(notFalse prefs taskDue24hEnabled \<and> \<not> notified24h t \<and>
             due - getTime now \<le> 24 * hourMs \<and> due - getTime now > 23 * hourMs) = fires24 now prefs t"
    using Some by (simp add: fires24_def inWindow24_def)
  have g1: "(notFalse prefs taskDue1hEnabled \<and> \<not> notified1h t \<and>
             due - getTime now \<le> 1 * hourMs \<and> due - getTime now > 0) = fires1 now prefs t"
    using Some by (simp add: fires1_def inWindow1_def)
  have unf: "checkOneTask E now uid prefs t w =
      bind (if fires24 now prefs t then ?B24 else ret ())
           (\<lambda>_. if fires1 now prefs t then ?B1 else ret ()) w"
    using Some g24 g1 by (simp add: checkOneTask_def Let_def)
  \<comment> \<open>first block\<close>
  have first: "\<exists>r b p evs. (if fires24 now prefs t then ?B24 else ret ()) w
        = (r, w\<lparr>tasks := map (\<lambda>y. if task_id y = ?j then raiseFlags b False y else y) (tasks w),
                pushTokens := p, trace := trace w @ evs\<rparr>)
      \<and> (b \<longrightarrow> fires24 now prefs t)
      \<and> (\<forall>i h. dueCalls i h evs \<le> (if ?j = i \<and> h = 24 \<and> fires24 now prefs t then 1 else 0))
      \<and> (safe E w uid now \<longrightarrow> r = Inr () \<and> b = fires24 now prefs t
           \<and> (\<forall>i h. dueCalls i h evs = (if ?j = i \<and> h = 24 \<and> fires24 now prefs t then 1 else 0)))
      \<and> (suppressed w uid now \<longrightarrow> p = pushTokens w \<and> filter isExpoPush evs = [])"
  proof (cases "fires24 now prefs t")
    case False
    then have "(if fires24 now prefs t then ?B24 else ret ()) w
        = (Inr (), w\<lparr>tasks := map (\<lambda>y. if task_id y = ?j then raiseFlags False False y else y) (tasks w),
                pushTokens := pushTokens w, trace := trace w @ []\<rparr>)"
      by (simp add: io_simps)
    then show ?thesis using False
      by (intro exI[of _ "Inr ()"] exI[of _ False] exI[of _ "pushTokens w"] exI[of _ "[]"]) simp
  next
    case True
    from block24[of ?j uid "title t" E now w] obtain r b p evs where
      b: "?B24 w = (r, w\<lparr>tasks := map (\<lambda>y. if task_id y = ?j then raiseFlags b False y else y) (tasks w),
              pushTokens := p, trace := trace w @ TaskDueCall ?j uid (title t) 24 # evs\<rparr>)"
      and e: "list_all isExpoPush evs"
      and ok: "pushNeverThrows E \<or> suppressed w uid now \<longrightarrow> r = Inr () \<and> b"
      and q: "suppressed w uid now \<longrightarrow> p = pushTokens w \<and> evs = []"
      by blast
    show ?thesis using True b e ok q
      by (intro exI[of _ r] exI[of _ b] exI[of _ p] exI[of _ "TaskDueCall ?j uid (title t) 24 # evs"])
         (auto simp: safe_def)
  qed
  then obtain r1 b24 p1 evs1 where
    f1: "(if fires24 now prefs t then ?B24 else ret ()) w
        = (r1, w\<lparr>tasks := map (\<lambda>y. if task_id y = ?j then raiseFlags b24 False y else y) (tasks w),
                pushTokens := p1, trace := trace w @ evs1\<rparr>)"
    and f1b: "b24 \<longrightarrow> fires24 now prefs t"
    and f1c: "\<forall>i h. dueCalls i h evs1 \<le> (if ?j = i \<and> h = 24 \<and> fires24 now prefs t then 1 else 0)"
    and f1s: "safe E w uid now \<longrightarrow> r1 = Inr () \<and> b24 = fires24 now prefs t
           \<and> (\<forall>i h. dueCalls i h evs1 = (if ?j = i \<and> h = 24 \<and> fires24 now prefs t then 1 else 0))"
    and f1q: "suppressed w uid now \<longrightarrow> p1 = pushTokens w \<and> filter isExpoPush evs1 = []"
    by blast
  let ?w1 = "w\<lparr>tasks := map (\<lambda>y. if task_id y = ?j then raiseFlags b24 False y else y) (tasks w),
                pushTokens := p1, trace := trace w @ evs1\<rparr>"
  show ?thesis
  proof (cases r1)
    case (Inl err)
    then have "checkOneTask E now uid prefs t w = (Inl err, ?w1)"
      using unf f1 by (simp add: io_simps)
    moreover have "\<forall>i h. dueCalls i h evs1 \<le> (if ?j = i \<and> firesH h now prefs t then 1 else 0)"
    proof (intro allI)
      fix i h
      from f1c have "dueCalls i h evs1 \<le> (if ?j = i \<and> h = 24 \<and> fires24 now prefs t then 1 else 0)"
        by blast
      then show "dueCalls i h evs1 \<le> (if ?j = i \<and> firesH h now prefs t then 1 else 0)"
        by (auto simp: firesH_def split: if_splits)
    qed
    moreover have "\<not> safe E w uid now" using f1s Inl by auto
    ultimately have "oneTaskPost E now uid prefs t w (Inl err) b24 False p1 evs1"
      using f1b f1q unfolding oneTaskPost_def by blast
    moreover note \<open>checkOneTask E now uid prefs t w = (Inl err, ?w1)\<close>
    ultimately show ?thesis by blast
  next
    case (Inr u)
    have sf: "safe E w uid now \<Longrightarrow> safe E ?w1 uid now"
      using f1q by (intro safe_same_tokens) auto
    have second: "\<exists>r b p evs. (if fires1 now prefs t then ?B1 else ret ()) ?w1
        = (r, ?w1\<lparr>tasks := map (\<lambda>y. if task_id y = ?j then raiseFlags False b y else y) (tasks ?w1),
                pushTokens := p, trace := trace ?w1 @ evs\<rparr>)
      \<and> (b \<longrightarrow> fires1 now prefs t)
      \<and> (\<forall>i h. dueCalls i h evs \<le> (if ?j = i \<and> h = 1 \<and> fires1 now prefs t then 1 else 0))
      \<and> (safe E ?w1 uid now \<longrightarrow> r = Inr () \<and> b = fires1 now prefs t
           \<and> (\<forall>i h. dueCalls i h evs = (if ?j = i \<and> h = 1 \<and> fires1 now prefs t then 1 else 0)))
      \<and> (suppressed ?w1 uid now \<longrightarrow> p = pushTokens ?w1 \<and> filter isExpoPush evs = [])"
    proof (cases "fires1 now prefs t")
      case False
      then have "(if fires1 now prefs t then ?B1 else ret ()) ?w1
          = (Inr (), ?w1\<lparr>tasks := map (\<lambda>y. if task_id y = ?j then raiseFlags False False y else y) (tasks ?w1),
                  pushTokens := pushTokens ?w1, trace := trace ?w1 @ []\<rparr>)"
        by (simp add: io_simps)
      then show ?thesis using False
        by (intro exI[of _ "Inr ()"] exI[of _ False] exI[of _ "pushTokens ?w1"] exI[of _ "[]"]) simp
    next
      case True
      from block1[of ?j uid "title t" E now ?w1] obtain r b p evs where
        b: "?B1 ?w1 = (r, ?w1\<lparr>tasks := map (\<lambda>y. if task_id y = ?j then raiseFlags False b y else y) (tasks ?w1),
                pushTokens := p, trace := trace ?w1 @ TaskDueCall ?j uid (title t) 1 # evs\<rparr>)"
        and e: "list_all isExpoPush evs"
        and ok: "pushNeverThrows E \<or> suppressed ?w1 uid now \<longrightarrow> r = Inr () \<and> b"
        and q: "suppressed ?w1 uid now \<longrightarrow> p = pushTokens ?w1 \<and> evs = []"
        by blast
      show ?thesis using True b e ok q
        by (intro exI[of _ r] exI[of _ b] exI[of _ p] exI[of _ "TaskDueCall ?j uid (title t) 1 # evs"])
           (auto simp: safe_def)
    qed
    then obtain r2 b1 p2 evs2 where
      f2: "(if fires1 now prefs t then ?B1 else ret ()) ?w1
        = (r2, ?w1\<lparr>tasks := map (\<lambda>y. if task_id y = ?j then raiseFlags False b1 y else y) (tasks ?w1),
                pushTokens := p2, trace := trace ?w1 @ evs2\<rparr>)"
      and f2b: "b1 \<longrightarrow> fires1 now prefs t"
      and f2c: "\<forall>i h. dueCalls i h evs2 \<le> (if ?j = i \<and> h = 1 \<and> fires1 now prefs t then 1 else 0)"
      and f2s: "safe E ?w1 uid now \<longrightarrow> r2 = Inr () \<and> b1 = fires1 now prefs t
           \<and> (\<forall>i h. dueCalls i h evs2 = (if ?j = i \<and> h = 1 \<and> fires1 now prefs t then 1 else 0))"
      and f2q: "suppressed ?w1 uid now \<longrightarrow> p2 = pushTokens ?w1 \<and> filter isExpoPush evs2 = []"
      by blast
    have res: "checkOneTask E now uid prefs t w =
       (r2, w\<lparr>tasks := map (\<lambda>y. if task_id y = ?j then raiseFlags b24 b1 y else y) (tasks w),
              pushTokens := p2, trace := trace w @ (evs1 @ evs2)\<rparr>)"
      using unf f1 f2 Inr by (simp add: io_simps)
    have sup1: "suppressed w uid now \<Longrightarrow> suppressed ?w1 uid now"
      using f1q by simp
    have c: "\<forall>i h. dueCalls i h (evs1 @ evs2) \<le> (if ?j = i \<and> firesH h now prefs t then 1 else 0)"
    proof (intro allI)
      fix i h
      have "dueCalls i h evs1 \<le> (if ?j = i \<and> h = 24 \<and> fires24 now prefs t then 1 else 0)" using f1c by blast
      moreover have "dueCalls i h evs2 \<le> (if ?j = i \<and> h = 1 \<and> fires1 now prefs t then 1 else 0)" using f2c by blast
      ultimately show "dueCalls i h (evs1 @ evs2) \<le> (if ?j = i \<and> firesH h now prefs t then 1 else 0)"
        by (auto simp: firesH_def split: if_splits)
    qed
    have s: "safe E w uid now \<longrightarrow> r2 = Inr () \<and> b24 = fires24 now prefs t \<and> b1 = fires1 now prefs t
        \<and> (\<forall>i h. dueCalls i h (evs1 @ evs2) = (if task_id t = i \<and> firesH h now prefs t then 1 else 0))"
    proof
      assume a: "safe E w uid now"
      with f1s have 1: "b24 = fires24 now prefs t"
         "\<forall>i h. dueCalls i h evs1 = (if ?j = i \<and> h = 24 \<and> fires24 now prefs t then 1 else 0)" by auto
      from sf[OF a] f2s have 2: "r2 = Inr ()" "b1 = fires1 now prefs t"
         "\<forall>i h. dueCalls i h evs2 = (if ?j = i \<and> h = 1 \<and> fires1 now prefs t then 1 else 0)" by auto
      show "r2 = Inr () \<and> b24 = fires24 now prefs t \<and> b1 = fires1 now prefs t
        \<and> (\<forall>i h. dueCalls i h (evs1 @ evs2) = (if task_id t = i \<and> firesH h now prefs t then 1 else 0))"
        using 1 2 by (auto simp: firesH_def)
    qed
    have q: "suppressed w uid now \<longrightarrow> p2 = pushTokens w \<and> filter isExpoPush (evs1 @ evs2) = []"
      using f1q f2q sup1 by auto
    have "oneTaskPost E now uid prefs t w r2 b24 b1 p2 (evs1 @ evs2)"
      unfolding oneTaskPost_def using f1b f2b c s q by blast
    with res show ?thesis by blast
  qed
qed

section \<open>Due reminders: one pass\<close>

lemma raised_refl: "raised a a"
  unfolding raised_def by (rule exI[of _ False], rule exI[of _ False]) simp

lemma raisedI: "raised a (raiseFlags x y a)"
  unfolding raised_def by blast

lemma raised_trans: "raised a b \<Longrightarrow> raised b c \<Longrightarrow> raised a c"
  unfolding raised_def by (elim exE) (simp, blast)

lemma list_all2_raised_refl: "list_all2 raised xs xs"
  by (simp add: list_all2_refl raised_refl)

lemma list_all2_raised_map: "list_all2 raised xs (map (\<lambda>y. if task_id y = j then raiseFlags a b y else y) xs)"
  by (induction xs) (auto simp: raisedI raised_refl)

lemma list_all2_raised_trans:
  "list_all2 raised xs ys \<Longrightarrow> list_all2 raised ys zs \<Longrightarrow> list_all2 raised xs zs"
  using list_all2_trans[of raised raised raised] raised_trans by blast

lemma forEach_any:
  "\<exists>r T p evs. forEach (checkOneTask E now uid prefs) ts w = (r, w\<lparr>tasks := T, pushTokens := p, trace := trace w @ evs\<rparr>)
     \<and> list_all2 raised (tasks w) T
     \<and> (\<forall>i h. dueCalls i h evs \<le> length (filter (\<lambda>t. task_id t = i \<and> firesH h now prefs t) ts))"
proof (induction ts arbitrary: w)
  case Nil
  have "forEach (checkOneTask E now uid prefs) [] w = (Inr (), w\<lparr>tasks := tasks w, pushTokens := pushTokens w, trace := trace w @ []\<rparr>)"
    by (simp add: io_simps)
  then show ?case using list_all2_raised_refl[of "tasks w"]
    by (intro exI[of _ "Inr ()"] exI[of _ "tasks w"] exI[of _ "pushTokens w"] exI[of _ "[]"]) simp
next
  case (Cons t ts)
  from checkOneTask_shape[of E now uid prefs t w] obtain r b24 b1 p evs where
    c: "checkOneTask E now uid prefs t w =
       (r, w\<lparr>tasks := map (\<lambda>y. if task_id y = task_id t then raiseFlags b24 b1 y else y) (tasks w),
              pushTokens := p, trace := trace w @ evs\<rparr>)"
    and post: "oneTaskPost E now uid prefs t w r b24 b1 p evs" by blast
  let ?T1 = "map (\<lambda>y. if task_id y = task_id t then raiseFlags b24 b1 y else y) (tasks w)"
  let ?w1 = "w\<lparr>tasks := ?T1, pushTokens := p, trace := trace w @ evs\<rparr>"
  have r1: "list_all2 raised (tasks w) ?T1" by (rule list_all2_raised_map)
  have c1: "\<forall>i h. dueCalls i h evs \<le> (if task_id t = i \<and> firesH h now prefs t then 1 else 0)"
    using post unfolding oneTaskPost_def by blast
  show ?case
  proof (cases r)
    case (Inl err)
    have "forEach (checkOneTask E now uid prefs) (t # ts) w = (Inl err, ?w1)"
      using c Inl by (simp add: io_simps)
    moreover have "\<forall>i h. dueCalls i h evs \<le> length (filter (\<lambda>t. task_id t = i \<and> firesH h now prefs t) (t # ts))"
    proof (intro allI)
      fix i h
      from c1 have "dueCalls i h evs \<le> (if task_id t = i \<and> firesH h now prefs t then 1 else 0)" by blast
      then show "dueCalls i h evs \<le> length (filter (\<lambda>t. task_id t = i \<and> firesH h now prefs t) (t # ts))"
        by (auto split: if_splits)
    qed
    ultimately show ?thesis using r1 by blast
  next
    case (Inr u)
    from Cons.IH[of ?w1] obtain r' T' p' evs' where
      ih: "forEach (checkOneTask E now uid prefs) ts ?w1 = (r', ?w1\<lparr>tasks := T', pushTokens := p', trace := trace ?w1 @ evs'\<rparr>)"
      and r2: "list_all2 raised (tasks ?w1) T'"
      and c2: "\<forall>i h. dueCalls i h evs' \<le> length (filter (\<lambda>t. task_id t = i \<and> firesH h now prefs t) ts)"
      by blast
    have "forEach (checkOneTask E now uid prefs) (t # ts) w = (r', w\<lparr>tasks := T', pushTokens := p', trace := trace w @ (evs @ evs')\<rparr>)"
      using c Inr ih by (simp add: io_simps)
    moreover have "list_all2 raised (tasks w) T'"
      using list_all2_raised_trans[OF r1] r2 by simp
    moreover have "\<forall>i h. dueCalls i h (evs @ evs') \<le> length (filter (\<lambda>t. task_id t = i \<and> firesH h now prefs t) (t # ts))"
    proof (intro allI)
      fix i h
      from c1 have "dueCalls i h evs \<le> (if task_id t = i \<and> firesH h now prefs t then 1 else 0)" by blast
      moreover from c2 have "dueCalls i h evs' \<le> length (filter (\<lambda>t. task_id t = i \<and> firesH h now prefs t) ts)" by blast
      ultimately show "dueCalls i h (evs @ evs') \<le> length (filter (\<lambda>t. task_id t = i \<and> firesH h now prefs t) (t # ts))"
        by (auto split: if_splits)
    qed
    ultimately show ?thesis by blast
  qed
qed

lemma flagged_raised:
  "list_all2 raised xs ys \<Longrightarrow> list_all (\<lambda>t. task_id t = i \<longrightarrow> notified24h t) xs
     \<Longrightarrow> list_all (\<lambda>t. task_id t = i \<longrightarrow> notified24h t) ys"
  "list_all2 raised xs ys \<Longrightarrow> list_all (\<lambda>t. task_id t = i \<longrightarrow> notified1h t) xs
     \<Longrightarrow> list_all (\<lambda>t. task_id t = i \<longrightarrow> notified1h t) ys"
  by (induction xs ys rule: list_all2_induct; auto simp: raised_def)+

lemma pending_subset: "set (pendingDueTasks w uid) \<subseteq> set (tasks w)"
  by (auto simp: pendingDueTasks_def)

lemma pass_any24:
  assumes "flagged24 w i"
  shows "flagged24 (snd (checkTaskDueReminders E now uid prefs w)) i
       \<and> dueCalls i 24 (trace (snd (checkTaskDueReminders E now uid prefs w))) = dueCalls i 24 (trace w)"
proof -
  let ?ts = "pendingDueTasks w uid"
  from forEach_any[of E now uid prefs ?ts w] obtain r T p evs where
    f: "forEach (checkOneTask E now uid prefs) ?ts w = (r, w\<lparr>tasks := T, pushTokens := p, trace := trace w @ evs\<rparr>)"
    and ra: "list_all2 raised (tasks w) T"
    and c: "\<forall>i h. dueCalls i h evs \<le> length (filter (\<lambda>t. task_id t = i \<and> firesH h now prefs t) ?ts)"
    by blast
  have "filter (\<lambda>t. task_id t = i \<and> firesH 24 now prefs t) ?ts = []"
    using assms pending_subset[of w uid]
    by (auto simp: filter_empty_conv flagged24_def list_all_iff firesH_def fires24_def split: option.splits)
  with c have "dueCalls i 24 evs = 0" by (metis le_zero_eq list.size(3))
  moreover have "flagged24 (w\<lparr>tasks := T, pushTokens := p, trace := trace w @ evs\<rparr>) i"
    using flagged_raised(1)[OF ra] assms by (simp add: flagged24_def)
  ultimately show ?thesis using f by (simp add: checkTaskDueReminders_def)
qed

lemma pass_any1:
  assumes "flagged1 w i"
  shows "flagged1 (snd (checkTaskDueReminders E now uid prefs w)) i
       \<and> dueCalls i 1 (trace (snd (checkTaskDueReminders E now uid prefs w))) = dueCalls i 1 (trace w)"
proof -
  let ?ts = "pendingDueTasks w uid"
  from forEach_any[of E now uid prefs ?ts w] obtain r T p evs where
    f: "forEach (checkOneTask E now uid prefs) ?ts w = (r, w\<lparr>tasks := T, pushTokens := p, trace := trace w @ evs\<rparr>)"
    and ra: "list_all2 raised (tasks w) T"
    and c: "\<forall>i h. dueCalls i h evs \<le> length (filter (\<lambda>t. task_id t = i \<and> firesH h now prefs t) ?ts)"
    by blast
  have "filter (\<lambda>t. task_id t = i \<and> firesH 1 now prefs t) ?ts = []"
    using assms pending_subset[of w uid]
    by (auto simp: filter_empty_conv flagged1_def list_all_iff firesH_def fires1_def split: option.splits)
  with c have "dueCalls i 1 evs = 0" by (metis le_zero_eq list.size(3))
  moreover have "flagged1 (w\<lparr>tasks := T, pushTokens := p, trace := trace w @ evs\<rparr>) i"
    using flagged_raised(2)[OF ra] assms by (simp add: flagged1_def)
  ultimately show ?thesis using f by (simp add: checkTaskDueReminders_def)
qed

lemma ticks_any24:
  "flagged24 w i \<Longrightarrow> flagged24 (dueTicks E uid ticks w) i
     \<and> dueCalls i 24 (trace (dueTicks E uid ticks w)) = dueCalls i 24 (trace w)"
proof (induction ticks arbitrary: w)
  case Nil then show ?case by simp
next
  case (Cons tk ticks)
  obtain now prefs where tk: "tk = (now, prefs)" by (cases tk)
  from pass_any24[OF Cons.prems, of E now uid prefs] Cons.IH[of "snd (checkTaskDueReminders E now uid prefs w)"]
  show ?case using tk by simp
qed

lemma ticks_any1:
  "flagged1 w i \<Longrightarrow> flagged1 (dueTicks E uid ticks w) i
     \<and> dueCalls i 1 (trace (dueTicks E uid ticks w)) = dueCalls i 1 (trace w)"
proof (induction ticks arbitrary: w)
  case Nil then show ?case by simp
next
  case (Cons tk ticks)
  obtain now prefs where tk: "tk = (now, prefs)" by (cases tk)
  from pass_any1[OF Cons.prems, of E now uid prefs] Cons.IH[of "snd (checkTaskDueReminders E now uid prefs w)"]
  show ?case using tk by simp
qed

lemma dueStep_simps [simp]:
  "task_id (dueStep now prefs t) = task_id t"
  "task_userId (dueStep now prefs t) = task_userId t"
  "dueDate (dueStep now prefs t) = dueDate t"
  "status (dueStep now prefs t) = status t"
  by (simp_all add: dueStep_def)

lemma distinct_id_eq:
  "distinct (map task_id xs) \<Longrightarrow> t \<in> set xs \<Longrightarrow> y \<in> set xs \<Longrightarrow> task_id y = task_id t \<Longrightarrow> y = t"
  by (meson distinct_map inj_onD)

lemma map_id_preserve: "(\<And>y. task_id (f y) = task_id y) \<Longrightarrow> map task_id (map f xs) = map task_id xs"
  by (induction xs) auto

lemma forEach_safe:
  assumes "safe E w uid now" "distinct (map task_id (tasks w))" "set ts \<subseteq> set (tasks w)"
    "distinct (map task_id ts)"
  shows "\<exists>p evs. forEach (checkOneTask E now uid prefs) ts w =
       (Inr (), w\<lparr>tasks := map (\<lambda>y. if y \<in> set ts then dueStep now prefs y else y) (tasks w),
                  pushTokens := p, trace := trace w @ evs\<rparr>)
     \<and> (\<forall>i h. dueCalls i h evs = length (filter (\<lambda>t. task_id t = i \<and> firesH h now prefs t) ts))
     \<and> (suppressed w uid now \<longrightarrow> p = pushTokens w \<and> filter isExpoPush evs = [])"
  using assms
proof (induction ts arbitrary: w)
  case Nil
  have "forEach (checkOneTask E now uid prefs) [] w = (Inr (), w\<lparr>tasks := map (\<lambda>y. if y \<in> set [] then dueStep now prefs y else y) (tasks w), pushTokens := pushTokens w, trace := trace w @ []\<rparr>)"
    by (simp add: io_simps)
  then show ?case
    by (intro exI[of _ "pushTokens w"] exI[of _ "[]"]) simp
next
  case (Cons t ts)
  from checkOneTask_shape[of E now uid prefs t w] obtain r b24 b1 p evs where
    c: "checkOneTask E now uid prefs t w =
       (r, w\<lparr>tasks := map (\<lambda>y. if task_id y = task_id t then raiseFlags b24 b1 y else y) (tasks w),
              pushTokens := p, trace := trace w @ evs\<rparr>)"
    and post: "oneTaskPost E now uid prefs t w r b24 b1 p evs" by blast
  from post Cons.prems(1) have r: "r = Inr ()" and b: "b24 = fires24 now prefs t" "b1 = fires1 now prefs t"
    and c1: "\<forall>i h. dueCalls i h evs = (if task_id t = i \<and> firesH h now prefs t then 1 else 0)"
    and q1: "suppressed w uid now \<longrightarrow> p = pushTokens w \<and> filter isExpoPush evs = []"
    unfolding oneTaskPost_def by blast+
  have tin: "t \<in> set (tasks w)" using Cons.prems(3) by simp
  let ?T1 = "map (\<lambda>y. if y = t then dueStep now prefs t else y) (tasks w)"
  have T1: "map (\<lambda>y. if task_id y = task_id t then raiseFlags b24 b1 y else y) (tasks w) = ?T1"
    using distinct_id_eq[OF Cons.prems(2) tin] b by (auto simp: dueStep_def)
  let ?w1 = "w\<lparr>tasks := ?T1, pushTokens := p, trace := trace w @ evs\<rparr>"
  have c': "checkOneTask E now uid prefs t w = (Inr (), ?w1)" using c r T1 by simp
  have s1: "safe E ?w1 uid now" using Cons.prems(1) q1 by (intro safe_same_tokens) auto
  have ids: "map task_id ?T1 = map task_id (tasks w)" by (rule map_id_preserve) simp
  have t1: "tasks ?w1 = ?T1" by simp
  have d1: "distinct (map task_id (tasks ?w1))" unfolding t1 ids by (rule Cons.prems(2))
  have notin: "\<And>y. y \<in> set ts \<Longrightarrow> task_id y \<noteq> task_id t" using Cons.prems(4) by (auto simp: image_iff)
  have sub1: "set ts \<subseteq> set (tasks ?w1)"
  proof
    fix y assume y: "y \<in> set ts"
    then have "y \<in> set (tasks w)" "y \<noteq> t" using Cons.prems(3) notin by auto
    then show "y \<in> set (tasks ?w1)" by (auto simp: image_iff)
  qed
  have d2: "distinct (map task_id ts)" using Cons.prems(4) by simp
  from Cons.IH[OF s1 d1 sub1 d2] obtain p' evs' where
    ih: "forEach (checkOneTask E now uid prefs) ts ?w1 =
       (Inr (), ?w1\<lparr>tasks := map (\<lambda>y. if y \<in> set ts then dueStep now prefs y else y) (tasks ?w1),
                  pushTokens := p', trace := trace ?w1 @ evs'\<rparr>)"
    and c2: "\<forall>i h. dueCalls i h evs' = length (filter (\<lambda>t. task_id t = i \<and> firesH h now prefs t) ts)"
    and q2: "suppressed ?w1 uid now \<longrightarrow> p' = pushTokens ?w1 \<and> filter isExpoPush evs' = []"
    by blast
  have comp: "map (\<lambda>y. if y \<in> set ts then dueStep now prefs y else y) ?T1
            = map (\<lambda>y. if y \<in> set (t # ts) then dueStep now prefs y else y) (tasks w)"
  proof -
    have "dueStep now prefs t \<notin> set ts" using notin[of "dueStep now prefs t"] by auto
    then show ?thesis by (auto simp: o_def)
  qed
  have "forEach (checkOneTask E now uid prefs) (t # ts) w =
       (Inr (), w\<lparr>tasks := map (\<lambda>y. if y \<in> set (t # ts) then dueStep now prefs y else y) (tasks w),
                  pushTokens := p', trace := trace w @ (evs @ evs')\<rparr>)"
    using c' ih comp by (simp add: io_simps)
  moreover have "\<forall>i h. dueCalls i h (evs @ evs') = length (filter (\<lambda>t. task_id t = i \<and> firesH h now prefs t) (t # ts))"
    using c1 c2 by auto
  moreover have "suppressed w uid now \<longrightarrow> p' = pushTokens w \<and> filter isExpoPush (evs @ evs') = []"
    using q1 q2 by auto
  ultimately show ?case by blast
qed

lemma filter_distinct_id:
  assumes "distinct (map task_id xs)" "t \<in> set xs"
  shows "length (filter (\<lambda>y. task_id y = task_id t \<and> P y) xs) = (if P t then 1 else 0)"
proof -
  have "filter (\<lambda>y. task_id y = task_id t \<and> P y) xs = filter (\<lambda>y. y = t \<and> P t) xs"
    using distinct_id_eq[OF assms] by (intro filter_cong) auto
  also have "\<dots> = (if P t then filter (\<lambda>y. y = t) xs else [])" by simp
  finally show ?thesis using assms
    by (auto simp: distinct_map distinct_length_filter) 
qed

lemma pass_safe:
  assumes "safe E w uid now" "distinct (map task_id (tasks w))"
  shows "\<exists>p evs. checkTaskDueReminders E now uid prefs w =
       (Inr (), w\<lparr>tasks := map (\<lambda>y. if eligible uid y then dueStep now prefs y else y) (tasks w),
                  pushTokens := p, trace := trace w @ evs\<rparr>)
     \<and> (\<forall>t h. t \<in> set (tasks w) \<longrightarrow>
            dueCalls (task_id t) h evs = (if eligible uid t \<and> firesH h now prefs t then 1 else 0))
     \<and> (suppressed w uid now \<longrightarrow> p = pushTokens w \<and> filter isExpoPush evs = [])"
proof -
  let ?ts = "pendingDueTasks w uid"
  have ts: "?ts = filter (eligible uid) (tasks w)"
    unfolding pendingDueTasks_def by (rule filter_cong) (simp_all add: eligible_def)
  have d: "distinct (map task_id ?ts)" unfolding ts using assms(2) by (rule distinct_map_filter)
  from forEach_safe[OF assms(1,2) pending_subset d, of prefs] obtain p evs where
    f: "forEach (checkOneTask E now uid prefs) ?ts w =
       (Inr (), w\<lparr>tasks := map (\<lambda>y. if y \<in> set ?ts then dueStep now prefs y else y) (tasks w),
                  pushTokens := p, trace := trace w @ evs\<rparr>)"
    and c: "\<forall>i h. dueCalls i h evs = length (filter (\<lambda>t. task_id t = i \<and> firesH h now prefs t) ?ts)"
    and q: "suppressed w uid now \<longrightarrow> p = pushTokens w \<and> filter isExpoPush evs = []"
    by blast
  have m: "map (\<lambda>y. if y \<in> set ?ts then dueStep now prefs y else y) (tasks w)
         = map (\<lambda>y. if eligible uid y then dueStep now prefs y else y) (tasks w)"
    unfolding ts by (intro map_cong) auto
  have cc: "\<forall>t h. t \<in> set (tasks w) \<longrightarrow>
            dueCalls (task_id t) h evs = (if eligible uid t \<and> firesH h now prefs t then 1 else 0)"
  proof (intro allI impI)
    fix t h assume tin: "t \<in> set (tasks w)"
    have "dueCalls (task_id t) h evs = length (filter (\<lambda>y. task_id y = task_id t \<and> firesH h now prefs y) ?ts)"
      using c by blast
    also have "\<dots> = length (filter (\<lambda>y. task_id y = task_id t \<and> (eligible uid y \<and> firesH h now prefs y)) (tasks w))"
      unfolding ts by (simp add: conj_ac)
    also have "\<dots> = (if eligible uid t \<and> firesH h now prefs t then 1 else 0)"
      by (rule filter_distinct_id[OF assms(2) tin])
    finally show "dueCalls (task_id t) h evs = (if eligible uid t \<and> firesH h now prefs t then 1 else 0)" .
  qed
  have pass: "checkTaskDueReminders E now uid prefs w =
       (Inr (), w\<lparr>tasks := map (\<lambda>y. if eligible uid y then dueStep now prefs y else y) (tasks w),
                  pushTokens := p, trace := trace w @ evs\<rparr>)"
    unfolding checkTaskDueReminders_def using f m by simp
  show ?thesis using pass cc q by blast
qed

section \<open>Due reminders: sequences of passes\<close>

lemma safe_pushNeverThrows: "pushNeverThrows E \<Longrightarrow> safe E w uid now"
  by (simp add: safe_def)

lemma ticks_safe:
  assumes "pushNeverThrows E"
    and "distinct (map task_id (tasks w))"
    and "t \<in> set (tasks w)" "task_userId t = uid" "isPending t" "dueDate t = Some due"
  shows "distinct (map task_id (tasks (dueTicks E uid ticks w)))
       \<and> raiseFlags (hit24 ticks due) (hit1 ticks due) t \<in> set (tasks (dueTicks E uid ticks w))
       \<and> dueCalls (task_id t) 24 (trace (dueTicks E uid ticks w))
           = dueCalls (task_id t) 24 (trace w) + (if \<not> notified24h t \<and> hit24 ticks due then 1 else 0)
       \<and> dueCalls (task_id t) 1 (trace (dueTicks E uid ticks w))
           = dueCalls (task_id t) 1 (trace w) + (if \<not> notified1h t \<and> hit1 ticks due then 1 else 0)"
  using assms(2-)
proof (induction ticks arbitrary: w t)
  case Nil
  then show ?case by (simp add: hit24_def hit1_def)
next
  case (Cons tk ticks)
  obtain now prefs where tk: "tk = (now, prefs)" by (cases tk)
  have el: "eligible uid t" using Cons.prems by (simp add: eligible_def isPending_def)
  from pass_safe[OF safe_pushNeverThrows[OF assms(1), of w uid now] Cons.prems(1), where prefs=prefs] obtain p evs where
    pass: "checkTaskDueReminders E now uid prefs w =
       (Inr (), w\<lparr>tasks := map (\<lambda>y. if eligible uid y then dueStep now prefs y else y) (tasks w),
                  pushTokens := p, trace := trace w @ evs\<rparr>)"
    and cc: "\<forall>t h. t \<in> set (tasks w) \<longrightarrow>
            dueCalls (task_id t) h evs = (if eligible uid t \<and> firesH h now prefs t then 1 else 0)"
    by blast
  let ?w1 = "w\<lparr>tasks := map (\<lambda>y. if eligible uid y then dueStep now prefs y else y) (tasks w),
                  pushTokens := p, trace := trace w @ evs\<rparr>"
  let ?t1 = "dueStep now prefs t"
  have tw1: "tasks ?w1 = map (\<lambda>y. if eligible uid y then dueStep now prefs y else y) (tasks w)"
    by simp
  have ids: "map task_id (map (\<lambda>y. if eligible uid y then dueStep now prefs y else y) (tasks w)) = map task_id (tasks w)"
    by (rule map_id_preserve) simp
  have d1: "distinct (map task_id (tasks ?w1))"
    unfolding tw1 ids by (rule Cons.prems(1))
  have t1in: "?t1 \<in> set (tasks ?w1)" using Cons.prems(2) el by (auto simp: image_iff)
  have t1p: "task_userId ?t1 = uid" "isPending ?t1" "dueDate ?t1 = Some due"
    using Cons.prems by (simp_all add: isPending_def)
  note ih = Cons.IH[OF d1 t1in t1p]
  have step: "dueTicks E uid (tk # ticks) w = dueTicks E uid ticks ?w1" using tk pass by simp
  have f24: "fires24 now prefs t = (notFalse prefs taskDue24hEnabled \<and> \<not> notified24h t \<and> inWindow24 now due)"
    using Cons.prems by (simp add: fires24_def)
  have f1: "fires1 now prefs t = (notFalse prefs taskDue1hEnabled \<and> \<not> notified1h t \<and> inWindow1 now due)"
    using Cons.prems by (simp add: fires1_def)
  have h24: "hit24 (tk # ticks) due = ((notFalse prefs taskDue24hEnabled \<and> inWindow24 now due) \<or> hit24 ticks due)"
    using tk by (simp add: hit24_def)
  have h1: "hit1 (tk # ticks) due = ((notFalse prefs taskDue1hEnabled \<and> inWindow1 now due) \<or> hit1 ticks due)"
    using tk by (simp add: hit1_def)
  have c24: "dueCalls (task_id t) 24 evs = (if fires24 now prefs t then 1 else 0)"
    using cc Cons.prems(2) el by (simp add: firesH_def)
  have c1: "dueCalls (task_id t) 1 evs = (if fires1 now prefs t then 1 else 0)"
    using cc Cons.prems(2) el by (simp add: firesH_def)
  have row: "raiseFlags (hit24 ticks due) (hit1 ticks due) ?t1
           = raiseFlags (hit24 (tk # ticks) due) (hit1 (tk # ticks) due) t"
  proof -
    have a: "(notified24h t \<or> fires24 now prefs t \<or> hit24 ticks due) = (notified24h t \<or> hit24 (tk # ticks) due)"
      unfolding h24 f24 by blast
    have b: "(notified1h t \<or> fires1 now prefs t \<or> hit1 ticks due) = (notified1h t \<or> hit1 (tk # ticks) due)"
      unfolding h1 f1 by blast
    show ?thesis unfolding dueStep_def raiseFlags_simps(9) by (simp only: raiseFlags_def a b)
  qed
  have n24: "notified24h ?t1 = (notified24h t \<or> fires24 now prefs t)"
    and n1: "notified1h ?t1 = (notified1h t \<or> fires1 now prefs t)"
    by (simp_all add: dueStep_def)
  show ?case
    unfolding step using ih row c24 c1 unfolding n24 n1 h24 h1 f24 f1
    by (auto simp del: raiseFlags_simps(9))
qed

section \<open>Exactly-once due reminders\<close>

text \<open>
  Claim C1, as the code has it. Take a task with a due date whose status is \<open>PENDING\<close> or
  \<open>IN_PROGRESS\<close> and whose two flags are unset, a push gateway that answers every batch, and
  any sequence of passes of \<open>checkTaskDueReminders\<close> for the task's user in which at least
  one pass is evaluated inside the 24-hour window with the 24-hour toggle not disabled, and at
  least one inside the 1-hour window with the 1-hour toggle not disabled. Then, however many
  passes fall inside each window, exactly one 24-hour and exactly one 1-hour due reminder are
  raised for the task over the whole sequence, and afterwards the task's row is the same row
  with \<open>notified24h\<close> and \<open>notified1h\<close> both true.
\<close>

theorem due_reminders_exactly_once:
  assumes "pushNeverThrows E"
    and "distinct (map task_id (tasks w))"
    and "t \<in> set (tasks w)" and "task_userId t = uid" and "isPending t" and "dueDate t = Some due"
    and "\<not> notified24h t" and "\<not> notified1h t"
    and "\<exists>(now, prefs) \<in> set ticks. notFalse prefs taskDue24hEnabled \<and> inWindow24 now due"
    and "\<exists>(now, prefs) \<in> set ticks. notFalse prefs taskDue1hEnabled \<and> inWindow1 now due"
  shows "dueCalls (task_id t) 24 (trace (dueTicks E uid ticks w)) = dueCalls (task_id t) 24 (trace w) + 1
       \<and> dueCalls (task_id t) 1 (trace (dueTicks E uid ticks w)) = dueCalls (task_id t) 1 (trace w) + 1
       \<and> t\<lparr>notified24h := True, notified1h := True\<rparr> \<in> set (tasks (dueTicks E uid ticks w))
       \<and> flagged24 (dueTicks E uid ticks w) (task_id t) \<and> flagged1 (dueTicks E uid ticks w) (task_id t)"
proof -
  have h: "hit24 ticks due" "hit1 ticks due" using assms(9,10) by (simp_all add: hit24_def hit1_def)
  let ?w' = "dueTicks E uid ticks w"
  from ticks_safe[OF assms(1-6), of ticks] h assms(7,8)
  have d: "distinct (map task_id (tasks ?w'))"
    and r: "raiseFlags True True t \<in> set (tasks ?w')"
    and c: "dueCalls (task_id t) 24 (trace ?w') = dueCalls (task_id t) 24 (trace w) + 1"
           "dueCalls (task_id t) 1 (trace ?w') = dueCalls (task_id t) 1 (trace w) + 1"
    by simp_all
  have row: "raiseFlags True True t = t\<lparr>notified24h := True, notified1h := True\<rparr>"
    by (simp add: raiseFlags_def)
  have fl: "\<And>y. y \<in> set (tasks ?w') \<Longrightarrow> task_id y = task_id t \<Longrightarrow> notified24h y \<and> notified1h y"
  proof -
    fix y assume "y \<in> set (tasks ?w')" "task_id y = task_id t"
    then have "y = raiseFlags True True t" using distinct_id_eq[OF d r] by simp
    then show "notified24h y \<and> notified1h y" by simp
  qed
  have "flagged24 ?w' (task_id t)" "flagged1 ?w' (task_id t)"
    unfolding flagged24_def flagged1_def list_all_iff using fl by blast+
  with r c row show ?thesis by simp
qed

theorem due_reminders_exactly_once_witness:
  "dueCalls 1 24 (trace (dueTicks exEnv ''u1'' exTicks exWorld)) = 1
   \<and> dueCalls 1 1 (trace (dueTicks exEnv ''u1'' exTicks exWorld)) = 1
   \<and> exTask\<lparr>notified24h := True, notified1h := True\<rparr> \<in> set (tasks (dueTicks exEnv ''u1'' exTicks exWorld))"
proof -
  have h1: "pushNeverThrows exEnv" by (simp add: pushNeverThrows_def exEnv_def)
  have h2: "distinct (map task_id (tasks exWorld))" by (simp add: exWorld_def)
  have h3: "exTask \<in> set (tasks exWorld)" by (simp add: exWorld_def)
  have h4: "task_userId exTask = ''u1''" by (simp add: exTask_def)
  have h5: "isPending exTask" by (simp add: exTask_def isPending_def)
  have h6: "dueDate exTask = Some 360000000" by (simp add: exTask_def)
  have h7: "\<not> notified24h exTask" by (simp add: exTask_def)
  have h8: "\<not> notified1h exTask" by (simp add: exTask_def)
  have h9: "\<exists>(now, prefs) \<in> set exTicks. notFalse prefs taskDue24hEnabled \<and> inWindow24 now 360000000"
    by (simp add: exTicks_def notFalse_def inWindow24_def clockAt_def hourMs_def)
  have h10: "\<exists>(now, prefs) \<in> set exTicks. notFalse prefs taskDue1hEnabled \<and> inWindow1 now 360000000"
    by (simp add: exTicks_def notFalse_def inWindow1_def clockAt_def hourMs_def)
  have i: "task_id exTask = 1" by (simp add: exTask_def)
  have tr: "trace exWorld = []" by (simp add: exWorld_def)
  from due_reminders_exactly_once[OF h1 h2 h3 h4 h5 h6 h7 h8 h9 h10]
  show ?thesis unfolding i tr by simp
qed

text \<open>
  The claim as stated, for every task with a due date and a not-completed status, fails when
  the user has switched the due reminders off: the four passes of the example, two inside
  each window, raise no reminder and leave both flags unset.
\<close>

theorem due_reminders_exactly_once_counterexample:
  "exTask \<in> set (tasks exWorldOff) \<and> status exTask = PENDING \<and> dueDate exTask = Some 360000000
   \<and> inWindow24 (fst (exTicksOff ! 0)) 360000000 \<and> inWindow24 (fst (exTicksOff ! 1)) 360000000
   \<and> inWindow1 (fst (exTicksOff ! 2)) 360000000 \<and> inWindow1 (fst (exTicksOff ! 3)) 360000000
   \<and> dueCalls 1 24 (trace (dueTicks exEnv ''u1'' exTicksOff exWorldOff)) = 0
   \<and> dueCalls 1 1 (trace (dueTicks exEnv ''u1'' exTicksOff exWorldOff)) = 0
   \<and> tasks (dueTicks exEnv ''u1'' exTicksOff exWorldOff) = [exTask]
   \<and> \<not> notified24h exTask \<and> \<not> notified1h exTask"
  by code_simp

section \<open>A suppressed due reminder is not retried\<close>

text \<open>
  Claim C10. Let a pass of \<open>checkTaskDueReminders\<close> be evaluated while \<open>sendToUser\<close> does not
  deliver to the user (quiet hours apply, or the user has no active push token). The pass
  completes without a push call and keeps every row of the task table in its place. If the
  task is then inside its 24-hour window, with the 24-hour toggle not disabled and the flag
  unset, the reminder is raised once on that pass, the task's row is afterwards the same
  row with \<open>notified24h\<close> true although nothing was delivered, no row with the task's id has
  the flag unset, and no later sequence of passes ever raises the 24-hour reminder for the
  task again. The same holds for the 1-hour window and \<open>notified1h\<close>.
\<close>

theorem suppressed_due_reminder_is_final:
  assumes "distinct (map task_id (tasks w))"
    and "t \<in> set (tasks w)" and "task_userId t = uid" and "isPending t" and "dueDate t = Some due"
    and "suppressed w uid now"
    and "w1 = snd (checkTaskDueReminders E now uid prefs w)"
  shows "fst (checkTaskDueReminders E now uid prefs w) = Inr ()
       \<and> filter isExpoPush (trace w1) = filter isExpoPush (trace w)
       \<and> map task_id (tasks w1) = map task_id (tasks w)
       \<and> (notFalse prefs taskDue24hEnabled \<and> inWindow24 now due \<and> \<not> notified24h t \<longrightarrow>
            dueCalls (task_id t) 24 (trace w1) = dueCalls (task_id t) 24 (trace w) + 1
            \<and> t\<lparr>notified24h := True\<rparr> \<in> set (tasks w1)
            \<and> flagged24 w1 (task_id t)
            \<and> (\<forall>later. dueCalls (task_id t) 24 (trace (dueTicks E uid later w1))
                          = dueCalls (task_id t) 24 (trace w1)))
       \<and> (notFalse prefs taskDue1hEnabled \<and> inWindow1 now due \<and> \<not> notified1h t \<longrightarrow>
            dueCalls (task_id t) 1 (trace w1) = dueCalls (task_id t) 1 (trace w) + 1
            \<and> t\<lparr>notified1h := True\<rparr> \<in> set (tasks w1)
            \<and> flagged1 w1 (task_id t)
            \<and> (\<forall>later. dueCalls (task_id t) 1 (trace (dueTicks E uid later w1))
                          = dueCalls (task_id t) 1 (trace w1)))"
proof -
  have sf: "safe E w uid now" using assms(6) by (simp add: safe_def)
  have el: "eligible uid t" using assms by (simp add: eligible_def isPending_def)
  from pass_safe[OF sf assms(1), where prefs=prefs] obtain p evs where
    pass: "checkTaskDueReminders E now uid prefs w =
       (Inr (), w\<lparr>tasks := map (\<lambda>y. if eligible uid y then dueStep now prefs y else y) (tasks w),
                  pushTokens := p, trace := trace w @ evs\<rparr>)"
    and cc: "\<forall>t h. t \<in> set (tasks w) \<longrightarrow>
            dueCalls (task_id t) h evs = (if eligible uid t \<and> firesH h now prefs t then 1 else 0)"
    and q: "suppressed w uid now \<longrightarrow> p = pushTokens w \<and> filter isExpoPush evs = []"
    by blast
  have w1: "w1 = w\<lparr>tasks := map (\<lambda>y. if eligible uid y then dueStep now prefs y else y) (tasks w),
                  pushTokens := p, trace := trace w @ evs\<rparr>"
    using assms(7) pass by simp
  have ok: "fst (checkTaskDueReminders E now uid prefs w) = Inr ()" using pass by simp
  have nopush: "filter isExpoPush (trace w1) = filter isExpoPush (trace w)"
    using q assms(6) w1 by simp
  have "map task_id (map (\<lambda>y. if eligible uid y then dueStep now prefs y else y) (tasks w))
          = map task_id (tasks w)"
    by (rule map_id_preserve) simp
  then have ids: "map task_id (tasks w1) = map task_id (tasks w)" using w1 by simp
  have "(if eligible uid t then dueStep now prefs t else t)
          \<in> set (map (\<lambda>y. if eligible uid y then dueStep now prefs y else y) (tasks w))"
    using assms(2) by (simp only: set_map) (rule imageI)
  then have mem: "dueStep now prefs t \<in> set (tasks w1)" using el w1 by simp
  have c: "\<And>h. dueCalls (task_id t) h (trace w1) = dueCalls (task_id t) h (trace w) + (if firesH h now prefs t then 1 else 0)"
    using cc assms(2) el w1 by simp
  have rows: "\<And>y. y \<in> set (tasks w1) \<Longrightarrow> task_id y = task_id t \<Longrightarrow> y = dueStep now prefs t"
  proof -
    fix y assume y: "y \<in> set (tasks w1)" "task_id y = task_id t"
    then obtain x where x: "x \<in> set (tasks w)" "y = (if eligible uid x then dueStep now prefs x else x)"
      unfolding w1 by auto
    then have "task_id x = task_id t" using y(2) by (auto split: if_splits)
    then have "x = t" using distinct_id_eq[OF assms(1,2) x(1)] by simp
    then show "y = dueStep now prefs t" using x(2) el by simp
  qed
  have p24: "notFalse prefs taskDue24hEnabled \<and> inWindow24 now due \<and> \<not> notified24h t \<longrightarrow>
            dueCalls (task_id t) 24 (trace w1) = dueCalls (task_id t) 24 (trace w) + 1
            \<and> t\<lparr>notified24h := True\<rparr> \<in> set (tasks w1)
            \<and> flagged24 w1 (task_id t)
            \<and> (\<forall>later. dueCalls (task_id t) 24 (trace (dueTicks E uid later w1))
                          = dueCalls (task_id t) 24 (trace w1))"
  proof
    assume a: "notFalse prefs taskDue24hEnabled \<and> inWindow24 now due \<and> \<not> notified24h t"
    then have f: "fires24 now prefs t" using assms(5) by (simp add: fires24_def)
    have g: "\<not> fires1 now prefs t"
      using a assms(5) by (simp add: fires1_def inWindow24_def inWindow1_def hourMs_def)
    then have 1: "dueCalls (task_id t) 24 (trace w1) = dueCalls (task_id t) 24 (trace w) + 1"
      using f c[of 24] by (simp add: firesH_def)
    have "dueStep now prefs t = t\<lparr>notified24h := True\<rparr>"
      using f g by (simp add: dueStep_def raiseFlags_def)
    with mem have 4: "t\<lparr>notified24h := True\<rparr> \<in> set (tasks w1)" by simp
    have "\<And>y. y \<in> set (tasks w1) \<Longrightarrow> task_id y = task_id t \<Longrightarrow> notified24h y"
    proof -
      fix y assume "y \<in> set (tasks w1)" "task_id y = task_id t"
      then have "y = dueStep now prefs t" by (rule rows)
      then show "notified24h y" using f by (simp add: dueStep_def)
    qed
    then have 2: "flagged24 w1 (task_id t)"
      unfolding flagged24_def list_all_iff by blast
    from ticks_any24[OF 2] have 3: "\<forall>later. dueCalls (task_id t) 24 (trace (dueTicks E uid later w1))
                          = dueCalls (task_id t) 24 (trace w1)" by blast
    from 1 2 3 4 show "dueCalls (task_id t) 24 (trace w1) = dueCalls (task_id t) 24 (trace w) + 1
            \<and> t\<lparr>notified24h := True\<rparr> \<in> set (tasks w1)
            \<and> flagged24 w1 (task_id t)
            \<and> (\<forall>later. dueCalls (task_id t) 24 (trace (dueTicks E uid later w1))
                          = dueCalls (task_id t) 24 (trace w1))" by blast
  qed
  have p1: "notFalse prefs taskDue1hEnabled \<and> inWindow1 now due \<and> \<not> notified1h t \<longrightarrow>
            dueCalls (task_id t) 1 (trace w1) = dueCalls (task_id t) 1 (trace w) + 1
            \<and> t\<lparr>notified1h := True\<rparr> \<in> set (tasks w1)
            \<and> flagged1 w1 (task_id t)
            \<and> (\<forall>later. dueCalls (task_id t) 1 (trace (dueTicks E uid later w1))
                          = dueCalls (task_id t) 1 (trace w1))"
  proof
    assume a: "notFalse prefs taskDue1hEnabled \<and> inWindow1 now due \<and> \<not> notified1h t"
    then have f: "fires1 now prefs t" using assms(5) by (simp add: fires1_def)
    have g: "\<not> fires24 now prefs t"
      using a assms(5) by (simp add: fires24_def inWindow24_def inWindow1_def hourMs_def)
    then have 1: "dueCalls (task_id t) 1 (trace w1) = dueCalls (task_id t) 1 (trace w) + 1"
      using f c[of 1] by (simp add: firesH_def)
    have "dueStep now prefs t = t\<lparr>notified1h := True\<rparr>"
      using f g by (simp add: dueStep_def raiseFlags_def)
    with mem have 4: "t\<lparr>notified1h := True\<rparr> \<in> set (tasks w1)" by simp
    have "\<And>y. y \<in> set (tasks w1) \<Longrightarrow> task_id y = task_id t \<Longrightarrow> notified1h y"
    proof -
      fix y assume "y \<in> set (tasks w1)" "task_id y = task_id t"
      then have "y = dueStep now prefs t" by (rule rows)
      then show "notified1h y" using f by (simp add: dueStep_def)
    qed
    then have 2: "flagged1 w1 (task_id t)"
      unfolding flagged1_def list_all_iff by blast
    from ticks_any1[OF 2] have 3: "\<forall>later. dueCalls (task_id t) 1 (trace (dueTicks E uid later w1))
                          = dueCalls (task_id t) 1 (trace w1)" by blast
    from 1 2 3 4 show "dueCalls (task_id t) 1 (trace w1) = dueCalls (task_id t) 1 (trace w) + 1
            \<and> t\<lparr>notified1h := True\<rparr> \<in> set (tasks w1)
            \<and> flagged1 w1 (task_id t)
            \<and> (\<forall>later. dueCalls (task_id t) 1 (trace (dueTicks E uid later w1))
                          = dueCalls (task_id t) 1 (trace w1))" by blast
  qed
  from ok nopush ids p24 p1 show ?thesis by blast
qed

theorem suppressed_due_reminder_is_final_witness:
  "suppressed exWorldQuiet ''u1'' exNow23
   \<and> inWindow24 exNow23 360000000
   \<and> tasks exWorldQuiet = [exTask] \<and> \<not> notified24h exTask
   \<and> fst (checkTaskDueReminders exEnv exNow23 ''u1'' (Some exPrefsQuiet) exWorldQuiet) = Inr ()
   \<and> filter isExpoPush (trace (snd (checkTaskDueReminders exEnv exNow23 ''u1'' (Some exPrefsQuiet) exWorldQuiet))) = []
   \<and> dueCalls 1 24 (trace (snd (checkTaskDueReminders exEnv exNow23 ''u1'' (Some exPrefsQuiet) exWorldQuiet))) = 1
   \<and> tasks (snd (checkTaskDueReminders exEnv exNow23 ''u1'' (Some exPrefsQuiet) exWorldQuiet))
       = [exTask\<lparr>notified24h := True\<rparr>]
   \<and> flagged24 (snd (checkTaskDueReminders exEnv exNow23 ''u1'' (Some exPrefsQuiet) exWorldQuiet)) 1
   \<and> dueCalls 1 24 (trace (dueTicks exEnv ''u1'' exTicks
        (snd (checkTaskDueReminders exEnv exNow23 ''u1'' (Some exPrefsQuiet) exWorldQuiet)))) = 1"
proof -
  let ?w1 = "snd (checkTaskDueReminders exEnv exNow23 ''u1'' (Some exPrefsQuiet) exWorldQuiet)"
  have h0: "tasks exWorldQuiet = [exTask]" by (simp add: exWorldQuiet_def exWorld_def)
  have h1: "distinct (map task_id (tasks exWorldQuiet))" by (simp add: h0)
  have h2: "exTask \<in> set (tasks exWorldQuiet)" by (simp add: h0)
  have h3: "task_userId exTask = ''u1''" by (simp add: exTask_def)
  have h4: "isPending exTask" by (simp add: exTask_def isPending_def)
  have h5: "dueDate exTask = Some 360000000" by (simp add: exTask_def)
  have h6: "suppressed exWorldQuiet ''u1'' exNow23" by code_simp
  have g: "notFalse (Some exPrefsQuiet) taskDue24hEnabled \<and> inWindow24 exNow23 360000000 \<and> \<not> notified24h exTask"
    by (simp add: notFalse_def exPrefsQuiet_def inWindow24_def exNow23_def clockAt_def hourMs_def exTask_def)
  have i: "task_id exTask = 1" by (simp add: exTask_def)
  have tr: "trace exWorldQuiet = []" by (simp add: exWorldQuiet_def exWorld_def)
  from suppressed_due_reminder_is_final[OF h1 h2 h3 h4 h5 h6 refl, of exEnv "Some exPrefsQuiet"] g
  have r: "fst (checkTaskDueReminders exEnv exNow23 ''u1'' (Some exPrefsQuiet) exWorldQuiet) = Inr ()"
      "filter isExpoPush (trace ?w1) = filter isExpoPush (trace exWorldQuiet)"
      "dueCalls (task_id exTask) 24 (trace ?w1) = dueCalls (task_id exTask) 24 (trace exWorldQuiet) + 1"
      "flagged24 ?w1 (task_id exTask)"
      "dueCalls (task_id exTask) 24 (trace (dueTicks exEnv ''u1'' exTicks ?w1))
          = dueCalls (task_id exTask) 24 (trace ?w1)"
    and ids: "map task_id (tasks ?w1) = map task_id (tasks exWorldQuiet)"
    and row: "exTask\<lparr>notified24h := True\<rparr> \<in> set (tasks ?w1)"
    by blast+
  from ids have "length (tasks ?w1) = 1" using h0 by (metis length_map list.size(3,4) One_nat_def add.left_neutral)
  then obtain y where y: "tasks ?w1 = [y]" by (cases "tasks ?w1") auto
  with row have "tasks ?w1 = [exTask\<lparr>notified24h := True\<rparr>]" by simp
  with r show ?thesis using h0 h6 g unfolding i tr by simp
qed
section \<open>Quiet hours\<close>

lemma sendToUser_not_quiet:
  "\<not> inQuietHours (findPrefs w uid) now \<Longrightarrow> sendToUser E now uid m w \<noteq> (Inr QuietHours, w)"
  by (auto simp: sendToUser_def Let_def io_simps split: prod.splits sum.splits)

lemma sendToUser_quiet_iff:
  "(sendToUser E now uid m w = (Inr QuietHours, w)) = inQuietHours (findPrefs w uid) now"
  using sendToUser_not_quiet[of w uid now E m] by (auto simp: sendToUser_def)

text \<open>
  Claim C3, as the code has it. For a user whose preferences have quiet hours enabled with a
  non-empty start and end, and whose window runs over midnight (the end is before the start
  in the string order), \<open>sendToUser\<close> suppresses the delivery, leaving the state untouched,
  if and only if the current \<open>HH:MM\<close> is at or after the start or at or before the end, both
  bounds included, in the string order. In particular it suppresses at 23:00 for the window
  from 22:00 to 07:00.
\<close>

theorem sendToUser_quiet_hours:
  assumes "findPrefs w uid = Some p" and "quietHoursEnabled p"
    and "quietHoursStart p = Some qs" and "quietHoursEnd p = Some qe" and "qs \<noteq> []" and "qe \<noteq> []"
    and "str_less qe qs"
  shows "(sendToUser E now uid m w = (Inr QuietHours, w)) =
         (str_ge (getCurrentTime now) qs \<or> str_le (getCurrentTime now) qe)"
  using assms by (simp add: sendToUser_quiet_iff inQuietHours_def)

theorem sendToUser_quiet_hours_witness:
  "findPrefs exWorldQuiet ''u1'' = Some exPrefsQuiet
   \<and> quietHoursStart exPrefsQuiet = Some ''22:00'' \<and> quietHoursEnd exPrefsQuiet = Some ''07:00''
   \<and> getCurrentTime exNow23 = ''23:00''
   \<and> sendToUser exEnv exNow23 ''u1'' exMessage exWorldQuiet = (Inr QuietHours, exWorldQuiet)"
proof -
  have h1: "findPrefs exWorldQuiet ''u1'' = Some exPrefsQuiet"
    by (simp add: findPrefs_def exWorldQuiet_def exPrefsQuiet_def)
  have h2: "quietHoursEnabled exPrefsQuiet" by (simp add: exPrefsQuiet_def)
  have h3: "quietHoursStart exPrefsQuiet = Some ''22:00''" by (simp add: exPrefsQuiet_def)
  have h4: "quietHoursEnd exPrefsQuiet = Some ''07:00''" by (simp add: exPrefsQuiet_def)
  have h5: "''22:00'' \<noteq> []" "''07:00'' \<noteq> []" by simp_all
  have h6: "str_less ''07:00'' ''22:00''" by simp
  have t: "getCurrentTime exNow23 = ''23:00''"
    by (simp add: getCurrentTime_def exNow23_def clockAt_def padStart2_def digitChar_def)
  have g: "str_ge ''23:00'' ''22:00''" by (simp add: str_ge_def str_le_def)
  from sendToUser_quiet_hours[OF h1 h2 h3 h4 h5 h6, of exEnv exNow23 exMessage] g
  have "sendToUser exEnv exNow23 ''u1'' exMessage exWorldQuiet = (Inr QuietHours, exWorldQuiet)"
    unfolding t by simp
  then show ?thesis using h1 h3 h4 t by simp
qed

text \<open>
  The claim as stated takes the window as the half-open interval from start to end in the
  same-day string order. At the claim's own example the delivery is suppressed although
  23:00 is not in that interval: 23:00 is not before 07:00.
\<close>

theorem sendToUser_quiet_hours_counterexample:
  "findPrefs exWorldQuiet ''u1'' = Some exPrefsQuiet
   \<and> quietHoursEnabled exPrefsQuiet
   \<and> quietHoursStart exPrefsQuiet = Some ''22:00'' \<and> quietHoursEnd exPrefsQuiet = Some ''07:00''
   \<and> getCurrentTime exNow23 = ''23:00''
   \<and> sendToUser exEnv exNow23 ''u1'' exMessage exWorldQuiet = (Inr QuietHours, exWorldQuiet)
   \<and> \<not> (str_le ''22:00'' (getCurrentTime exNow23) \<and> str_less (getCurrentTime exNow23) ''07:00'')"
  by code_simp

section \<open>Frame rules\<close>

text \<open>A relation between states that holds across every step holds across their sequence.\<close>

lemma bind_frame:
  assumes tr: "\<And>a b c. F a b \<Longrightarrow> F b c \<Longrightarrow> F a c"
    and m: "F w (snd (m w))"
    and f: "\<And>x w'. F w' (snd (f x w'))"
  shows "F w (snd (bind m f w))"
proof (cases "m w")
  case (Pair r w1)
  show ?thesis
  proof (cases r)
    case (Inl e) then show ?thesis using Pair m by (simp add: io_simps)
  next
    case (Inr x)
    have "F w w1" using m Pair by simp
    from tr[OF this f[of w1 x]] show ?thesis using Pair Inr by (simp add: io_simps)
  qed
qed

lemma catch_frame:
  assumes tr: "\<And>a b c. F a b \<Longrightarrow> F b c \<Longrightarrow> F a c"
    and m: "F w (snd (m w))"
    and h: "\<And>e w'. F w' (snd (h e w'))"
  shows "F w (snd (catch m h w))"
proof (cases "m w")
  case (Pair r w1)
  show ?thesis
  proof (cases r)
    case (Inr x) then show ?thesis using Pair m by (simp add: io_simps)
  next
    case (Inl e)
    have "F w w1" using m Pair by simp
    from tr[OF this h[of w1 e]] show ?thesis using Pair Inl by (simp add: io_simps)
  qed
qed

lemma forEach_frame:
  assumes tr: "\<And>a b c. F a b \<Longrightarrow> F b c \<Longrightarrow> F a c"
    and rf: "\<And>a. F a a"
    and b: "\<And>x w'. F w' (snd (body x w'))"
  shows "F w (snd (forEach body xs w))"
proof (induction xs arbitrary: w)
  case Nil show ?case by (simp add: io_simps rf)
next
  case (Cons x xs)
  show ?case unfolding forEach.simps
    by (rule bind_frame[of F, OF tr b Cons.IH])
qed

lemma foldIO_frame:
  assumes tr: "\<And>a b c. F a b \<Longrightarrow> F b c \<Longrightarrow> F a c"
    and rf: "\<And>a. F a a"
    and b: "\<And>acc x w'. F w' (snd (body acc x w'))"
  shows "F w (snd (foldIO body acc xs w))"
proof (induction xs arbitrary: w acc)
  case Nil show ?case by (simp add: io_simps rf)
next
  case (Cons x xs)
  show ?case unfolding foldIO.simps
    by (rule bind_frame[of F, OF tr b Cons.IH])
qed

section \<open>Credential refresh\<close>

lemma auth_unfold:
  "getAuthenticatedClient E now uid w =
     (case findConnection w uid of
        None \<Rightarrow> (Inl GoogleNotConnected, w)
      | Some c \<Rightarrow>
          if accessToken c = [] then (Inl OAuthNotConfigured, w)
          else if tokenExpiry c < getTime now then
            (case refreshAccessToken E c of
               Inl e \<Rightarrow> (Inl e, w\<lparr>trace := trace w @ [RefreshAccessToken uid]\<rparr>)
             | Inr cr \<Rightarrow> (Inr uid, snd (storeCredentials now uid c cr (w\<lparr>trace := trace w @ [RefreshAccessToken uid]\<rparr>))))
          else (Inr uid, w))"
  by (simp add: getAuthenticatedClient_def io_simps storeCredentials_def split: option.splits sum.splits)

lemma auth_client: "getAuthenticatedClient E now uid w = (Inr cl, w') \<Longrightarrow> cl = uid"
  by (auto simp: auth_unfold split: option.splits sum.splits if_splits)

lemma auth_tasks [simp]: "tasks (snd (getAuthenticatedClient E now uid w)) = tasks w"
  by (simp add: auth_unfold storeCredentials_def split: option.splits sum.splits)

lemma auth_courses [simp]: "courses (snd (getAuthenticatedClient E now uid w)) = courses w"
  by (simp add: auth_unfold storeCredentials_def split: option.splits sum.splits)

text \<open>
  Claim C9, as the code has it. For an account with a stored access credential,
  \<open>getAuthenticatedClient\<close> calls the credential refresh exactly when the stored expiry is
  strictly before the current time (\<open>connection.tokenExpiry < new Date()\<close>): it then returns
  the client if the refresh succeeds, and throws without touching the stored credentials if
  it fails. When the expiry is at or after the current time, the boundary included, it
  returns the client without a refresh and without any change of state.
\<close>

theorem refresh_iff_expired_strictly:
  assumes "findConnection w uid = Some c" and "accessToken c \<noteq> []"
  shows "(tokenExpiry c < getTime now \<longrightarrow>
            trace (snd (getAuthenticatedClient E now uid w)) = trace w @ [RefreshAccessToken uid]
          \<and> (\<forall>cr. refreshAccessToken E c = Inr cr \<longrightarrow> fst (getAuthenticatedClient E now uid w) = Inr uid)
          \<and> (\<forall>e. refreshAccessToken E c = Inl e \<longrightarrow>
                 fst (getAuthenticatedClient E now uid w) = Inl e
               \<and> connections (snd (getAuthenticatedClient E now uid w)) = connections w))
       \<and> (getTime now \<le> tokenExpiry c \<longrightarrow> getAuthenticatedClient E now uid w = (Inr uid, w))"
  using assms by (auto simp: auth_unfold storeCredentials_def split: sum.splits)

theorem refresh_iff_expired_strictly_witness:
  "findConnection exWorldConn ''u1'' = Some exConn \<and> tokenExpiry exConn < getTime (clockAt 6000 0 0)
   \<and> trace (snd (getAuthenticatedClient exEnv (clockAt 6000 0 0) ''u1'' exWorldConn)) = [RefreshAccessToken ''u1'']
   \<and> fst (getAuthenticatedClient exEnv (clockAt 6000 0 0) ''u1'' exWorldConn) = Inr ''u1''"
proof -
  have h1: "findConnection exWorldConn ''u1'' = Some exConn"
    by (simp add: findConnection_def exWorldConn_def exConn_def)
  have h2: "accessToken exConn \<noteq> []" by (simp add: exConn_def)
  have h3: "tokenExpiry exConn < getTime (clockAt 6000 0 0)" by (simp add: exConn_def clockAt_def)
  have h4: "refreshAccessToken exEnv exConn = Inr \<lparr>cred_access_token = ''fresh'', cred_refresh_token = None,
                                           cred_expiry_date = None\<rparr>" by (simp add: exEnv_def)
  have tr: "trace exWorldConn = []" by (simp add: exWorldConn_def exWorld_def)
  from refresh_iff_expired_strictly[OF h1 h2, of "clockAt 6000 0 0" exEnv] h3 h4
  show ?thesis using h1 unfolding tr by simp
qed

text \<open>
  The claim as stated includes the boundary in the refresh case. At an expiry equal to the
  current time the code returns the client and makes no refresh call.
\<close>

theorem refresh_at_expiry_counterexample:
  "findConnection exWorldConn ''u1'' = Some exConn \<and> accessToken exConn = ''at''
   \<and> tokenExpiry exConn = getTime (clockAt 5000 0 0)
   \<and> getAuthenticatedClient exEnv (clockAt 5000 0 0) ''u1'' exWorldConn = (Inr ''u1'', exWorldConn)
   \<and> trace exWorldConn = []"
  by code_simp

section \<open>Importing assignments\<close>

lemma findTask_hasTask: "(findTask w uid gid \<noteq> None) = hasTask (tasks w) uid gid"
  by (auto simp: findTask_def hasTask_def find_None_iff)

lemma hasTask_append: "hasTask T uid gid \<Longrightarrow> hasTask (T @ new) uid gid"
  by (auto simp: hasTask_def)

lemma importWork_shape:
  "\<exists>new. importWork E now uid c acc work w = (Inr (acc @ new), w\<lparr>tasks := tasks w @ new\<rparr>)
     \<and> (hasTask (tasks w) uid (gw_id work) \<longrightarrow> new = [])
     \<and> (\<not> hasTask (tasks w) uid (gw_id work) \<longrightarrow> (\<exists>row. new = [row] \<and> newRowFor E now uid work row))
     \<and> hasTask (tasks w @ new) uid (gw_id work)"
proof (cases "findTask w uid (gw_id work)")
  case None
  then have nh: "\<not> hasTask (tasks w) uid (gw_id work)" using findTask_hasTask[of w uid "gw_id work"] by simp
  let ?due = "parseDueDate E work"
  let ?row = "\<lparr>task_id = nextId (map task_id (tasks w)),
                    task_userId = uid,
                    title = orString (gw_title work) ''Untitled Task'',
                    task_description = gw_description work,
                    isFromClassroom = True,
                    googleTaskId = Some (gw_id work),
                    task_courseId = Some (course_id c),
                    dueDate = ?due,
                    task_priority = (case ?due of
                                       None \<Rightarrow> MEDIUM
                                     | Some d \<Rightarrow> if d < getTime now + 86400000 then HIGH else MEDIUM),
                    status = default_task_status E,
                    notified24h = default_notified24h E,
                    notified1h = default_notified1h E,
                    createdAt = getTime now\<rparr>"
  have "importWork E now uid c acc work w = (Inr (acc @ [?row]), w\<lparr>tasks := tasks w @ [?row]\<rparr>)"
    using None by (simp add: importWork_def Let_def)
  moreover have "newRowFor E now uid work ?row" by (simp add: newRowFor_def)
  moreover have "hasTask (tasks w @ [?row]) uid (gw_id work)" by (simp add: hasTask_def)
  ultimately show ?thesis using nh by (intro exI[of _ "[?row]"]) simp
next
  case (Some t)
  then have h: "hasTask (tasks w) uid (gw_id work)" using findTask_hasTask[of w uid "gw_id work"] by simp
  have "importWork E now uid c acc work w = (Inr (acc @ []), w\<lparr>tasks := tasks w @ []\<rparr>)"
    using Some by (simp add: importWork_def)
  then show ?thesis using h by (intro exI[of _ "[]"]) simp
qed

lemma importLoop_shape:
  "\<exists>new. foldIO (importWork E now uid c) acc ws w = (Inr (acc @ new), w\<lparr>tasks := tasks w @ new\<rparr>)
     \<and> ((\<forall>x \<in> set ws. hasTask (tasks w) uid (gw_id x)) \<longrightarrow> new = [])
     \<and> (\<forall>row \<in> set new. \<exists>x \<in> set ws. newRowFor E now uid x row)
     \<and> (\<forall>x \<in> set ws. hasTask (tasks w @ new) uid (gw_id x))"
proof (induction ws arbitrary: acc w)
  case Nil
  have "foldIO (importWork E now uid c) acc [] w = (Inr (acc @ []), w\<lparr>tasks := tasks w @ []\<rparr>)"
    by (simp add: io_simps)
  then show ?case by (intro exI[of _ "[]"]) simp
next
  case (Cons x ws)
  from importWork_shape[of E now uid c acc x w] obtain n1 where
    a: "importWork E now uid c acc x w = (Inr (acc @ n1), w\<lparr>tasks := tasks w @ n1\<rparr>)"
    and a1: "hasTask (tasks w) uid (gw_id x) \<longrightarrow> n1 = []"
    and a2: "\<not> hasTask (tasks w) uid (gw_id x) \<longrightarrow> (\<exists>row. n1 = [row] \<and> newRowFor E now uid x row)"
    and a3: "hasTask (tasks w @ n1) uid (gw_id x)" by blast
  let ?w1 = "w\<lparr>tasks := tasks w @ n1\<rparr>"
  from Cons.IH[of "acc @ n1" ?w1] obtain n2 where
    b: "foldIO (importWork E now uid c) (acc @ n1) ws ?w1 = (Inr ((acc @ n1) @ n2), ?w1\<lparr>tasks := tasks ?w1 @ n2\<rparr>)"
    and b1: "(\<forall>y \<in> set ws. hasTask (tasks ?w1) uid (gw_id y)) \<longrightarrow> n2 = []"
    and b2: "\<forall>row \<in> set n2. \<exists>y \<in> set ws. newRowFor E now uid y row"
    and b3: "\<forall>y \<in> set ws. hasTask (tasks ?w1 @ n2) uid (gw_id y)" by blast
  have r: "foldIO (importWork E now uid c) acc (x # ws) w = (Inr (acc @ (n1 @ n2)), w\<lparr>tasks := tasks w @ (n1 @ n2)\<rparr>)"
    using a b by (simp add: io_simps)
  have c1: "(\<forall>y \<in> set (x # ws). hasTask (tasks w) uid (gw_id y)) \<longrightarrow> n1 @ n2 = []"
  proof
    assume h: "\<forall>y \<in> set (x # ws). hasTask (tasks w) uid (gw_id y)"
    then have "n1 = []" using a1 by simp
    moreover have "n2 = []" using b1 h \<open>n1 = []\<close> by simp
    ultimately show "n1 @ n2 = []" by simp
  qed
  have c2: "\<forall>row \<in> set (n1 @ n2). \<exists>y \<in> set (x # ws). newRowFor E now uid y row"
    using a1 a2 b2 by (cases "hasTask (tasks w) uid (gw_id x)") auto
  have c3: "\<forall>y \<in> set (x # ws). hasTask (tasks w @ (n1 @ n2)) uid (gw_id y)"
    using a3 b3 hasTask_append[of "tasks w @ n1" uid _ n2] by auto
  from r c1 c2 c3 show ?case by blast
qed

lemma syncCourseTasks_shape:
  "\<exists>new evs. syncCourseTasks E now uid uid acc c w
        = (Inr (acc @ new), w\<lparr>tasks := tasks w @ new, trace := trace w @ evs\<rparr>)
     \<and> coursesPost E now uid [c] (tasks w) new evs"
proof (cases "courseWorkList E uid (googleCourseId c)")
  case (Inl e)
  let ?evs = "[CourseWorkList uid (googleCourseId c), ConsoleError (''Error syncing course '' @ course_name c @ '':'') e]"
  have "syncCourseTasks E now uid uid acc c w = (Inr (acc @ []), w\<lparr>tasks := tasks w @ [], trace := trace w @ ?evs\<rparr>)"
    using Inl by (simp add: syncCourseTasks_def io_simps)
  moreover have "coursesPost E now uid [c] (tasks w) [] ?evs"
    using Inl by (simp add: coursesPost_def)
  ultimately show ?thesis by blast
next
  case (Inr ws)
  let ?w1 = "w\<lparr>trace := trace w @ [CourseWorkList uid (googleCourseId c)]\<rparr>"
  from importLoop_shape[of E now uid c acc ws ?w1] obtain new where
    l: "foldIO (importWork E now uid c) acc ws ?w1 = (Inr (acc @ new), ?w1\<lparr>tasks := tasks ?w1 @ new\<rparr>)"
    and l1: "(\<forall>x \<in> set ws. hasTask (tasks ?w1) uid (gw_id x)) \<longrightarrow> new = []"
    and l2: "\<forall>row \<in> set new. \<exists>x \<in> set ws. newRowFor E now uid x row"
    and l3: "\<forall>x \<in> set ws. hasTask (tasks ?w1 @ new) uid (gw_id x)" by blast
  have "syncCourseTasks E now uid uid acc c w
        = (Inr (acc @ new), w\<lparr>tasks := tasks w @ new, trace := trace w @ [CourseWorkList uid (googleCourseId c)]\<rparr>)"
    using Inr l by (simp add: syncCourseTasks_def io_simps)
  moreover have "coursesPost E now uid [c] (tasks w) new [CourseWorkList uid (googleCourseId c)]"
    using Inr l1 l2 l3 by (simp add: coursesPost_def)
  ultimately show ?thesis by blast
qed

lemma coursesPost_Nil: "coursesPost E now uid [] T [] []"
  by (simp add: coursesPost_def)

lemma coursesPost_Cons:
  assumes "coursesPost E now uid [c] T n1 e1" "coursesPost E now uid cs (T @ n1) n2 e2"
  shows "coursesPost E now uid (c # cs) T (n1 @ n2) (e1 @ e2)"
proof -
  have mono: "\<And>gid. hasTask T uid gid \<Longrightarrow> hasTask (T @ n1) uid gid" by (rule hasTask_append)
  have p1: "\<forall>c' \<in> set (c # cs). \<forall>ws. courseWorkList E uid (googleCourseId c') = Inr ws \<longrightarrow>
          (\<forall>x \<in> set ws. hasTask (T @ (n1 @ n2)) uid (gw_id x))"
    using assms hasTask_append[of "T @ n1" uid _ n2] unfolding coursesPost_def by auto
  have p2: "\<forall>c' \<in> set (c # cs). \<forall>e. courseWorkList E uid (googleCourseId c') = Inl e \<longrightarrow>
          ConsoleError (''Error syncing course '' @ course_name c' @ '':'') e \<in> set (e1 @ e2)"
    using assms unfolding coursesPost_def by auto
  have p3: "(\<forall>c' \<in> set (c # cs). \<forall>ws. courseWorkList E uid (googleCourseId c') = Inr ws \<longrightarrow>
          (\<forall>x \<in> set ws. hasTask T uid (gw_id x))) \<longrightarrow> n1 @ n2 = []"
  proof
    assume h: "\<forall>c' \<in> set (c # cs). \<forall>ws. courseWorkList E uid (googleCourseId c') = Inr ws \<longrightarrow>
          (\<forall>x \<in> set ws. hasTask T uid (gw_id x))"
    then have "n1 = []" using assms(1) unfolding coursesPost_def by simp
    moreover have "n2 = []" using assms(2) h mono unfolding coursesPost_def by auto
    ultimately show "n1 @ n2 = []" by simp
  qed
  have p4: "\<forall>row \<in> set (n1 @ n2). \<exists>c' \<in> set (c # cs). \<exists>ws. courseWorkList E uid (googleCourseId c') = Inr ws \<and>
          (\<exists>x \<in> set ws. newRowFor E now uid x row)"
    using assms unfolding coursesPost_def by auto
  show ?thesis unfolding coursesPost_def using p1 p2 p3 p4 by blast
qed

lemma coursesLoop_shape:
  "\<exists>new evs. foldIO (syncCourseTasks E now uid uid) acc cs w
        = (Inr (acc @ new), w\<lparr>tasks := tasks w @ new, trace := trace w @ evs\<rparr>)
     \<and> coursesPost E now uid cs (tasks w) new evs"
proof (induction cs arbitrary: acc w)
  case Nil
  have "foldIO (syncCourseTasks E now uid uid) acc [] w
        = (Inr (acc @ []), w\<lparr>tasks := tasks w @ [], trace := trace w @ []\<rparr>)" by (simp add: io_simps)
  then show ?case using coursesPost_Nil by blast
next
  case (Cons c cs)
  from syncCourseTasks_shape[of E now uid acc c w] obtain n1 e1 where
    a: "syncCourseTasks E now uid uid acc c w = (Inr (acc @ n1), w\<lparr>tasks := tasks w @ n1, trace := trace w @ e1\<rparr>)"
    and a1: "coursesPost E now uid [c] (tasks w) n1 e1" by blast
  let ?w1 = "w\<lparr>tasks := tasks w @ n1, trace := trace w @ e1\<rparr>"
  from Cons.IH[of "acc @ n1" ?w1] obtain n2 e2 where
    b: "foldIO (syncCourseTasks E now uid uid) (acc @ n1) cs ?w1
        = (Inr ((acc @ n1) @ n2), ?w1\<lparr>tasks := tasks ?w1 @ n2, trace := trace ?w1 @ e2\<rparr>)"
    and b1: "coursesPost E now uid cs (tasks ?w1) n2 e2" by blast
  have "foldIO (syncCourseTasks E now uid uid) acc (c # cs) w
        = (Inr (acc @ (n1 @ n2)), w\<lparr>tasks := tasks w @ (n1 @ n2), trace := trace w @ (e1 @ e2)\<rparr>)"
    using a b by (simp add: io_simps)
  moreover have "coursesPost E now uid (c # cs) (tasks w) (n1 @ n2) (e1 @ e2)"
    using coursesPost_Cons[OF a1] b1 by simp
  ultimately show ?case by blast
qed

lemma syncTasks_returns:
  assumes "getAuthenticatedClient E now uid w = (Inr cl, w0)"
  shows "\<exists>new evs. syncTasks E now uid w
        = (Inr new, w0\<lparr>tasks := tasks w @ new, trace := trace w0 @ evs\<rparr>)
     \<and> coursesPost E now uid (syncEnabledCourses w uid) (tasks w) new evs"
proof -
  have cl: "cl = uid" using assms by (rule auth_client)
  have t0: "tasks w0 = tasks w" using auth_tasks[of E now uid w] assms by simp
  have c0: "syncEnabledCourses w0 uid = syncEnabledCourses w uid"
    using auth_courses[of E now uid w] assms by (simp add: syncEnabledCourses_def)
  from coursesLoop_shape[of E now uid "[]" "syncEnabledCourses w uid" w0] obtain new evs where
    l: "foldIO (syncCourseTasks E now uid uid) [] (syncEnabledCourses w uid) w0
        = (Inr ([] @ new), w0\<lparr>tasks := tasks w0 @ new, trace := trace w0 @ evs\<rparr>)"
    and p: "coursesPost E now uid (syncEnabledCourses w uid) (tasks w0) new evs" by blast
  have "syncTasks E now uid w = (Inr new, w0\<lparr>tasks := tasks w @ new, trace := trace w0 @ evs\<rparr>)"
    using assms cl l c0 t0 by (simp add: syncTasks_def io_simps)
  with p t0 show ?thesis by auto
qed

lemma syncTasks_throws:
  assumes "getAuthenticatedClient E now uid w = (Inl e, w0)"
  shows "syncTasks E now uid w = (Inl e, w0)"
  using assms by (simp add: syncTasks_def io_simps)

lemma syncTasks_cases:
  "(\<exists>e w0. getAuthenticatedClient E now uid w = (Inl e, w0) \<and> syncTasks E now uid w = (Inl e, w0))
 \<or> (\<exists>cl w0 new evs. getAuthenticatedClient E now uid w = (Inr cl, w0)
        \<and> syncTasks E now uid w = (Inr new, w0\<lparr>tasks := tasks w @ new, trace := trace w0 @ evs\<rparr>)
        \<and> coursesPost E now uid (syncEnabledCourses w uid) (tasks w) new evs)"
proof (cases "getAuthenticatedClient E now uid w")
  case (Pair r w0)
  show ?thesis
  proof (cases r)
    case (Inl e)
    then show ?thesis using Pair syncTasks_throws[of E now uid w e w0] by simp
  next
    case (Inr cl)
    then show ?thesis using Pair syncTasks_returns[of E now uid w cl w0] by simp
  qed
qed

lemma syncTasks_appends: "\<exists>new. tasks (snd (syncTasks E now uid w)) = tasks w @ new"
proof -
  from syncTasks_cases[of E now uid w] show ?thesis
  proof (elim disjE exE conjE)
    fix e w0 assume a: "getAuthenticatedClient E now uid w = (Inl e, w0)" "syncTasks E now uid w = (Inl e, w0)"
    have "tasks w0 = tasks w" using auth_tasks[of E now uid w] a(1) by simp
    then have "tasks (snd (syncTasks E now uid w)) = tasks w @ []" using a(2) by simp
    then show ?thesis by blast
  next
    fix cl w0 new evs
    assume "syncTasks E now uid w = (Inr new, w0\<lparr>tasks := tasks w @ new, trace := trace w0 @ evs\<rparr>)"
    then have "tasks (snd (syncTasks E now uid w)) = tasks w @ new" by simp
    then show ?thesis by blast
  qed
qed

lemma syncTasks_courses: "courses (snd (syncTasks E now uid w)) = courses w"
proof -
  from syncTasks_cases[of E now uid w] show ?thesis
  proof (elim disjE exE conjE)
    fix e w0 assume a: "getAuthenticatedClient E now uid w = (Inl e, w0)" "syncTasks E now uid w = (Inl e, w0)"
    have "courses w0 = courses w" using auth_courses[of E now uid w] a(1) by simp
    then show ?thesis using a(2) by simp
  next
    fix cl w0 new evs
    assume a: "getAuthenticatedClient E now uid w = (Inr cl, w0)"
       "syncTasks E now uid w = (Inr new, w0\<lparr>tasks := tasks w @ new, trace := trace w0 @ evs\<rparr>)"
    have "courses w0 = courses w" using auth_courses[of E now uid w] a(1) by simp
    then show ?thesis using a(2) by simp
  qed
qed

lemma syncTasks_post:
  assumes "syncTasks E now uid w = (Inr created, w1)"
  shows "tasks w1 = tasks w @ created
       \<and> (\<exists>evs. coursesPost E now uid (syncEnabledCourses w uid) (tasks w) created evs \<and> set evs \<subseteq> set (trace w1))"
proof -
  from syncTasks_cases[of E now uid w] show ?thesis
  proof (elim disjE exE conjE)
    fix e w0 assume "syncTasks E now uid w = (Inl e, w0)"
    then show ?thesis using assms by simp
  next
    fix cl w0 new evs
    assume a: "syncTasks E now uid w = (Inr new, w0\<lparr>tasks := tasks w @ new, trace := trace w0 @ evs\<rparr>)"
       "coursesPost E now uid (syncEnabledCourses w uid) (tasks w) new evs"
    from a(1) assms have "created = new" "w1 = w0\<lparr>tasks := tasks w @ new, trace := trace w0 @ evs\<rparr>" by simp_all
    then show ?thesis using a(2) by auto
  qed
qed

lemma parseDueDate_asImported: "dueDate row = parseDueDate E work \<Longrightarrow> dueDateAsImported E work row"
  by (auto simp: dueDateAsImported_def parseDueDate_def orNumber_def)

lemma exFirstImport_fst: "fst (syncTasks exEnvSync exNow1000 ''u1'' exWorldSync) = Inr exCreated"
  by code_simp

lemma exFirstImport:
  "syncTasks exEnvSync exNow1000 ''u1'' exWorldSync
     = (Inr exCreated, snd (syncTasks exEnvSync exNow1000 ''u1'' exWorldSync))"
  using exFirstImport_fst by (simp add: prod_eq_iff)

section \<open>Sync is create-only for tasks\<close>

text \<open>
  Claim C2. A pass of \<open>syncTasks\<close> only appends to the task table: every row that was there
  before is still there, unchanged and at its place, whether the pass returns or throws. And
  when a pass has returned, a second pass for the same account against the same upstream
  answers, at any later clock reading, leaves the task table exactly as the first pass left
  it: it creates no row, and if it returns, it returns an empty list of new tasks.
\<close>

theorem syncTasks_create_only:
  "(\<exists>new. tasks (snd (syncTasks E now uid w)) = tasks w @ new)
 \<and> (\<forall>created w1. syncTasks E now uid w = (Inr created, w1) \<longrightarrow>
        tasks w1 = tasks w @ created
      \<and> tasks (snd (syncTasks E now2 uid w1)) = tasks w1
      \<and> (\<forall>again. fst (syncTasks E now2 uid w1) = Inr again \<longrightarrow> again = []))"
proof (intro conjI allI impI)
  show "\<exists>new. tasks (snd (syncTasks E now uid w)) = tasks w @ new" by (rule syncTasks_appends)
next
  fix created w1 assume r1: "syncTasks E now uid w = (Inr created, w1)"
  from syncTasks_post[OF r1] obtain evs where
    t1: "tasks w1 = tasks w @ created"
    and p1: "coursesPost E now uid (syncEnabledCourses w uid) (tasks w) created evs" by blast
  show "tasks w1 = tasks w @ created" by (rule t1)
  have c1: "syncEnabledCourses w1 uid = syncEnabledCourses w uid"
    using syncTasks_courses[of E now uid w] r1 by (simp add: syncEnabledCourses_def)
  have all: "\<forall>c \<in> set (syncEnabledCourses w1 uid). \<forall>ws. courseWorkList E uid (googleCourseId c) = Inr ws \<longrightarrow>
          (\<forall>x \<in> set ws. hasTask (tasks w1) uid (gw_id x))"
    using p1 unfolding coursesPost_def c1 t1 by blast
  have both: "tasks (snd (syncTasks E now2 uid w1)) = tasks w1
      \<and> (\<forall>again. fst (syncTasks E now2 uid w1) = Inr again \<longrightarrow> again = [])"
    using syncTasks_cases[of E now2 uid w1]
  proof (elim disjE exE conjE)
    fix e w0 assume a: "getAuthenticatedClient E now2 uid w1 = (Inl e, w0)" "syncTasks E now2 uid w1 = (Inl e, w0)"
    have "tasks w0 = tasks w1" using auth_tasks[of E now2 uid w1] a(1) by simp
    then show ?thesis using a(2) by simp
  next
    fix cl w0 new evs'
    assume a: "syncTasks E now2 uid w1 = (Inr new, w0\<lparr>tasks := tasks w1 @ new, trace := trace w0 @ evs'\<rparr>)"
       "coursesPost E now2 uid (syncEnabledCourses w1 uid) (tasks w1) new evs'"
    have "new = []" using a(2) all unfolding coursesPost_def by blast
    then show ?thesis using a(1) by simp
  qed
  show "tasks (snd (syncTasks E now2 uid w1)) = tasks w1" using both by blast
  show "\<And>again. fst (syncTasks E now2 uid w1) = Inr again \<Longrightarrow> again = []" using both by blast
qed

theorem syncTasks_create_only_witness:
  "fst (syncTasks exEnvSync exNow1000 ''u1'' exWorldSync) = Inr exCreated
   \<and> tasks (snd (syncTasks exEnvSync exNow1000 ''u1'' exWorldSync)) = tasks exWorldSync @ exCreated
   \<and> tasks (snd (syncTasks exEnvSync exNow9000 ''u1'' (snd (syncTasks exEnvSync exNow1000 ''u1'' exWorldSync))))
       = tasks exWorldSync @ exCreated
   \<and> fst (syncTasks exEnvSync exNow9000 ''u1'' (snd (syncTasks exEnvSync exNow1000 ''u1'' exWorldSync))) = Inr []"
proof -
  let ?w1 = "snd (syncTasks exEnvSync exNow1000 ''u1'' exWorldSync)"
  have second: "fst (syncTasks exEnvSync exNow9000 ''u1'' ?w1) = Inr []" by code_simp
  from syncTasks_create_only[of exEnvSync exNow1000 "''u1''" exWorldSync exNow9000] exFirstImport
  have "tasks ?w1 = tasks exWorldSync @ exCreated"
    and "tasks (snd (syncTasks exEnvSync exNow9000 ''u1'' ?w1)) = tasks ?w1"
    by blast+
  then show ?thesis using exFirstImport_fst second by simp
qed

section \<open>Per-course failure isolation\<close>

text \<open>
  Claim C7. When the authorised client has been obtained, \<open>syncTasks\<close> returns normally
  whatever the assignment fetches do. For each of the account's sync-enabled courses, if the
  fetch answers, every assignment of its list has a local task of the account after the
  pass; if the fetch throws, the error is logged with the course's name by the \<open>catch\<close> of
  the loop over the courses, and the other courses are imported all the same.
\<close>

theorem syncTasks_isolates_course_failures:
  assumes "getAuthenticatedClient E now uid w = (Inr cl, w0)"
  shows "(\<exists>newTasks. fst (syncTasks E now uid w) = Inr newTasks)
       \<and> (\<forall>c \<in> set (syncEnabledCourses w uid).
            (\<forall>ws. courseWorkList E uid (googleCourseId c) = Inr ws \<longrightarrow>
               (\<forall>x \<in> set ws. hasTask (tasks (snd (syncTasks E now uid w))) uid (gw_id x)))
          \<and> (\<forall>e. courseWorkList E uid (googleCourseId c) = Inl e \<longrightarrow>
               ConsoleError (''Error syncing course '' @ course_name c @ '':'') e
                 \<in> set (trace (snd (syncTasks E now uid w)))))"
proof -
  from syncTasks_returns[OF assms] obtain new evs where
    r: "syncTasks E now uid w = (Inr new, w0\<lparr>tasks := tasks w @ new, trace := trace w0 @ evs\<rparr>)"
    and p: "coursesPost E now uid (syncEnabledCourses w uid) (tasks w) new evs" by blast
  have 1: "\<exists>newTasks. fst (syncTasks E now uid w) = Inr newTasks" using r by simp
  have 2: "tasks (snd (syncTasks E now uid w)) = tasks w @ new" using r by simp
  have 3: "set evs \<subseteq> set (trace (snd (syncTasks E now uid w)))" using r by simp
  show ?thesis using 1 p 3 unfolding coursesPost_def 2 by blast
qed

theorem syncTasks_isolates_course_failures_witness:
  "courseWorkList exEnvSync ''u1'' ''gB'' = Inl (External ''503'')
   \<and> fst (syncTasks exEnvSync exNow1000 ''u1'' exWorldSync) = Inr exCreated
   \<and> hasTask (tasks (snd (syncTasks exEnvSync exNow1000 ''u1'' exWorldSync))) ''u1'' ''a1''
   \<and> hasTask (tasks (snd (syncTasks exEnvSync exNow1000 ''u1'' exWorldSync))) ''u1'' ''c1''
   \<and> hasTask (tasks (snd (syncTasks exEnvSync exNow1000 ''u1'' exWorldSync))) ''u1'' ''c2''
   \<and> ConsoleError ''Error syncing course Biology:'' (External ''503'')
        \<in> set (trace (snd (syncTasks exEnvSync exNow1000 ''u1'' exWorldSync)))"
proof -
  have auth: "getAuthenticatedClient exEnvSync exNow1000 ''u1'' exWorldSync = (Inr ''u1'', exWorldSync)"
    by code_simp
  have cs: "syncEnabledCourses exWorldSync ''u1'' = exCourses" by code_simp
  have mem: "exCourses ! 0 \<in> set exCourses" "exCourses ! 1 \<in> set exCourses" "exCourses ! 2 \<in> set exCourses"
    by (simp_all add: exCourses_def)
  have a: "courseWorkList exEnvSync ''u1'' (googleCourseId (exCourses ! 0)) = Inr [exWorkA1]"
    by (simp add: exEnvSync_def exCourses_def)
  have b: "courseWorkList exEnvSync ''u1'' (googleCourseId (exCourses ! 1)) = Inl (External ''503'')"
    by (simp add: exEnvSync_def exCourses_def)
  have c: "courseWorkList exEnvSync ''u1'' (googleCourseId (exCourses ! 2)) = Inr [exWorkC1, exWorkC2]"
    by (simp add: exEnvSync_def exCourses_def)
  have n: "course_name (exCourses ! 1) = ''Biology''" by (simp add: exCourses_def)
  have ids: "gw_id exWorkA1 = ''a1''" "gw_id exWorkC1 = ''c1''" "gw_id exWorkC2 = ''c2''"
    by (simp_all add: exWorkA1_def exWorkC1_def exWorkC2_def)
  have b': "courseWorkList exEnvSync ''u1'' ''gB'' = Inl (External ''503'')" by (simp add: exEnvSync_def)
  note t = syncTasks_isolates_course_failures[OF auth, unfolded cs]
  from t mem(1) a have "hasTask (tasks (snd (syncTasks exEnvSync exNow1000 ''u1'' exWorldSync))) ''u1'' (gw_id exWorkA1)"
    by (metis list.set_intros(1))
  moreover from t mem(3) c have
    "hasTask (tasks (snd (syncTasks exEnvSync exNow1000 ''u1'' exWorldSync))) ''u1'' (gw_id exWorkC1)"
    "hasTask (tasks (snd (syncTasks exEnvSync exNow1000 ''u1'' exWorldSync))) ''u1'' (gw_id exWorkC2)"
    by (metis list.set_intros(1), metis list.set_intros(1,2))
  moreover from t mem(2) b have
    "ConsoleError (''Error syncing course '' @ course_name (exCourses ! 1) @ '':'') (External ''503'')
        \<in> set (trace (snd (syncTasks exEnvSync exNow1000 ''u1'' exWorldSync)))"
    by blast
  ultimately show ?thesis using exFirstImport_fst b' unfolding ids n by simp
qed

section \<open>The due date of an imported assignment\<close>

text \<open>
  Claim C8, as the code has it. Every row a pass of \<open>syncTasks\<close> creates is in the task
  table afterwards and comes from an assignment of the list of one of the account's
  sync-enabled courses. Its due date is computed from that assignment: with a full upstream
  date and no upstream time it is that year, month and day at 23:59; with a full upstream
  date and an upstream time of non-zero hours and minutes it is that date at that time; and
  when the upstream date is wholly absent the row has no due date at all.
\<close>

theorem imported_due_date:
  assumes "syncTasks E now uid w = (Inr created, w1)" and "row \<in> set created"
  shows "row \<in> set (tasks w1)
       \<and> (\<exists>c \<in> set (syncEnabledCourses w uid). \<exists>ws. courseWorkList E uid (googleCourseId c) = Inr ws
            \<and> (\<exists>work \<in> set ws. googleTaskId row = Some (gw_id work) \<and> dueDateAsImported E work row))"
proof -
  from syncTasks_post[OF assms(1)] obtain evs where
    t1: "tasks w1 = tasks w @ created"
    and p1: "coursesPost E now uid (syncEnabledCourses w uid) (tasks w) created evs" by blast
  from p1 assms(2) obtain c ws x where
    c: "c \<in> set (syncEnabledCourses w uid)" "courseWorkList E uid (googleCourseId c) = Inr ws"
       "x \<in> set ws" "newRowFor E now uid x row"
    unfolding coursesPost_def by blast
  have "googleTaskId row = Some (gw_id x) \<and> dueDateAsImported E x row"
    using c(4) parseDueDate_asImported[of row E x] by (simp add: newRowFor_def)
  with c t1 assms(2) show ?thesis by auto
qed

theorem imported_due_date_witness:
  "exCreated ! 1 \<in> set (tasks (snd (syncTasks exEnvSync exNow1000 ''u1'' exWorldSync)))
   \<and> gw_dueTime exWorkC1 = None
   \<and> dueDate (exCreated ! 1) = Some (localDate exEnvSync 2025 2 14 23 59)"
proof -
  have row: "exCreated ! 1 \<in> set exCreated" by (simp add: exCreated_def)
  have gid: "googleTaskId (exCreated ! 1) = Some ''c1''" by (simp add: exCreated_def)
  note t = imported_due_date[OF exFirstImport row]
  from t have r: "exCreated ! 1 \<in> set (tasks (snd (syncTasks exEnvSync exNow1000 ''u1'' exWorldSync)))"
    by (rule conjunct1)
  from t obtain c :: course and ws :: "gWork list" and work :: gWork where
    c: "courseWorkList exEnvSync ''u1'' (googleCourseId c) = Inr ws" "work \<in> set ws"
       "googleTaskId (exCreated ! 1) = Some (gw_id work)" "dueDateAsImported exEnvSync work (exCreated ! 1)"
    by blast
  have "ws = [exWorkA1] \<or> ws = [exWorkC1, exWorkC2]"
    using c(1) by (auto simp: exEnvSync_def split: if_splits)
  then have "work = exWorkC1"
    using c(2,3) gid by (auto simp: exWorkA1_def exWorkC1_def exWorkC2_def)
  then have "dueDateAsImported exEnvSync exWorkC1 (exCreated ! 1)" using c(4) by simp
  then have "dueDate (exCreated ! 1) = Some (localDate exEnvSync 2025 (3 - 1) 14 23 59)"
    unfolding dueDateAsImported_def by (simp add: exWorkC1_def)
  then show ?thesis using r by (simp add: exWorkC1_def)
qed

text \<open>
  The claim as stated gives a task whose upstream date is wholly absent the year, month and
  day of today. The first assignment of the example has no upstream date, and the row
  created for it has no due date.
\<close>

theorem imported_due_date_counterexample:
  "courseWorkList exEnvSync ''u1'' ''gA'' = Inr [exWorkA1]
   \<and> gw_id exWorkA1 = ''a1'' \<and> gw_dueDate exWorkA1 = None
   \<and> findTask exWorldSync ''u1'' ''a1'' = None
   \<and> map (\<lambda>t. (googleTaskId t, dueDate t)) (tasks (snd (syncTasks exEnvSync exNow1000 ''u1'' exWorldSync)))
       = [(None, Some 360000000), (Some ''a1'', None),
          (Some ''c1'', Some 65091772740000), (Some ''c2'', Some 65091810600000)]"
  by code_simp

section \<open>Upserting courses\<close>

lemma fetchTeacherName_shape:
  "fetchTeacherName E cl gc w = (Inr (teacherNameOf E cl gc), w\<lparr>trace := trace w @ [TeachersList cl (gc_id gc)]\<rparr>)"
  by (simp add: fetchTeacherName_def teacherNameOf_def io_simps split: sum.splits)

lemma find_key_None:
  "(find (\<lambda>c. course_userId c = uid \<and> googleCourseId c = k) T = None) = ((uid, k) \<notin> courseKey ` set T)"
  by (auto simp: find_None_iff courseKey_def image_iff)

lemma upsertCourse_shape:
  "\<exists>row. upsertCourse E uid gc (teacherNameOf E uid gc) w
       = (Inr row, w\<lparr>courses := upsertRows E uid (courses w) gc\<rparr>)"
proof (cases "find (\<lambda>c. course_userId c = uid \<and> googleCourseId c = gc_id gc) (courses w)")
  case None
  then have "(uid, gc_id gc) \<notin> courseKey ` set (courses w)" using find_key_None by blast
  then show ?thesis using None
    by (simp add: upsertCourse_def upsertRows_def Let_def)
next
  case (Some c)
  then have "(uid, gc_id gc) \<in> courseKey ` set (courses w)"
    using find_key_None[of uid "gc_id gc" "courses w"] by auto
  moreover have "map (\<lambda>c. if course_userId c = uid \<and> googleCourseId c = gc_id gc
               then c\<lparr>course_name := orString (gc_name gc) ''Unnamed Course'',
                      course_section := keepOr (gc_section gc) (course_section c),
                      course_description := keepOr (gc_description gc) (course_description c),
                      teacherName := teacherNameOf E uid gc\<rparr> else c) (courses w)
      = map (\<lambda>c. if courseKey c = (uid, gc_id gc) then updCourse gc (teacherNameOf E uid gc) c else c) (courses w)"
    by (rule map_cong) (auto simp: courseKey_def updCourse_def)
  ultimately show ?thesis using Some
    by (simp add: upsertCourse_def upsertRows_def Let_def)
qed

lemma upsertLoop_shape:
  "\<exists>rows evs. foldIO (\<lambda>syncedCourses gc.
                     bind (fetchTeacherName E uid gc) (\<lambda>tname.
                     bind (upsertCourse E uid gc tname) (\<lambda>synced.
                     ret (syncedCourses @ [synced])))) acc gcs w
      = (Inr (acc @ rows), w\<lparr>courses := foldl (upsertRows E uid) (courses w) gcs, trace := trace w @ evs\<rparr>)"
proof (induction gcs arbitrary: acc w)
  case Nil
  have "foldIO (\<lambda>syncedCourses gc.
                     bind (fetchTeacherName E uid gc) (\<lambda>tname.
                     bind (upsertCourse E uid gc tname) (\<lambda>synced.
                     ret (syncedCourses @ [synced])))) acc [] w
      = (Inr (acc @ []), w\<lparr>courses := foldl (upsertRows E uid) (courses w) [], trace := trace w @ []\<rparr>)"
    by (simp add: io_simps)
  then show ?case by blast
next
  case (Cons g gcs)
  let ?body = "\<lambda>syncedCourses gc.
                     bind (fetchTeacherName E uid gc) (\<lambda>tname.
                     bind (upsertCourse E uid gc tname) (\<lambda>synced.
                     ret (syncedCourses @ [synced])))"
  let ?w0 = "w\<lparr>trace := trace w @ [TeachersList uid (gc_id g)]\<rparr>"
  from upsertCourse_shape[of E uid g ?w0] obtain row where
    u: "upsertCourse E uid g (teacherNameOf E uid g) ?w0 = (Inr row, ?w0\<lparr>courses := upsertRows E uid (courses ?w0) g\<rparr>)"
    by blast
  let ?w1 = "?w0\<lparr>courses := upsertRows E uid (courses ?w0) g\<rparr>"
  have step: "?body acc g w = (Inr (acc @ [row]), ?w1)"
    using u by (simp add: io_simps fetchTeacherName_shape)
  from Cons.IH[of "acc @ [row]" ?w1] obtain rows evs where
    ih: "foldIO ?body (acc @ [row]) gcs ?w1
      = (Inr ((acc @ [row]) @ rows), ?w1\<lparr>courses := foldl (upsertRows E uid) (courses ?w1) gcs, trace := trace ?w1 @ evs\<rparr>)"
    by blast
  have "foldIO ?body acc (g # gcs) w
      = (Inr (acc @ (row # rows)), w\<lparr>courses := foldl (upsertRows E uid) (courses w) (g # gcs),
                                       trace := trace w @ (TeachersList uid (gc_id g) # evs)\<rparr>)"
    using step ih by (simp add: io_simps)
  then show ?case by blast
qed

lemma syncCourses_cases:
  "(\<exists>e. fst (syncCourses E now uid w) = Inl e \<and> courses (snd (syncCourses E now uid w)) = courses w)
 \<or> (\<exists>rows gcs. coursesList E uid = Inr gcs \<and> fst (syncCourses E now uid w) = Inr rows
        \<and> courses (snd (syncCourses E now uid w)) = foldl (upsertRows E uid) (courses w) gcs)"
proof (cases "getAuthenticatedClient E now uid w")
  case (Pair r w0)
  have c0: "courses w0 = courses w" using auth_courses[of E now uid w] Pair by simp
  show ?thesis
  proof (cases r)
    case (Inl e)
    then show ?thesis using Pair c0 by (simp add: syncCourses_def io_simps)
  next
    case (Inr cl)
    then have cl: "cl = uid" using Pair auth_client by blast
    show ?thesis
    proof (cases "coursesList E uid")
      case (Inl e)
      then show ?thesis using Pair Inr cl c0 by (simp add: syncCourses_def io_simps)
    next
      case gcs: (Inr gcs)
      let ?w1 = "w0\<lparr>trace := trace w0 @ [CoursesList uid]\<rparr>"
      from upsertLoop_shape[of E uid "[]" gcs ?w1] obtain rows evs where
        l: "foldIO (\<lambda>syncedCourses gc.
                     bind (fetchTeacherName E uid gc) (\<lambda>tname.
                     bind (upsertCourse E uid gc tname) (\<lambda>synced.
                     ret (syncedCourses @ [synced])))) [] gcs ?w1
          = (Inr ([] @ rows), ?w1\<lparr>courses := foldl (upsertRows E uid) (courses ?w1) gcs, trace := trace ?w1 @ evs\<rparr>)"
        by blast
      have "syncCourses E now uid w = (Inr rows, ?w1\<lparr>courses := foldl (upsertRows E uid) (courses ?w1) gcs, trace := trace ?w1 @ evs\<rparr>)"
        using Pair Inr cl gcs l by (simp add: syncCourses_def io_simps)
      then show ?thesis using gcs c0 by simp
    qed
  qed
qed

lemma updCourse_key [simp]: "courseKey (updCourse g tn c) = courseKey c"
  by (simp add: updCourse_def courseKey_def)

lemma updCourse_sel [simp]:
  "course_id (updCourse g tn c) = course_id c"
  "course_userId (updCourse g tn c) = course_userId c"
  "googleCourseId (updCourse g tn c) = googleCourseId c"
  "course_syncEnabled (updCourse g tn c) = course_syncEnabled c"
  "course_name (updCourse g tn c) = orString (gc_name g) ''Unnamed Course''"
  "course_section (updCourse g tn c) = keepOr (gc_section g) (course_section c)"
  "course_description (updCourse g tn c) = keepOr (gc_description g) (course_description c)"
  "teacherName (updCourse g tn c) = tn"
  by (simp_all add: updCourse_def)

lemma applyAll_key [simp]: "courseKey (applyAll E uid gs c) = courseKey c"
  by (induction gs arbitrary: c) auto

lemma applyAll_snoc:
  "applyAll E uid (gs @ [g]) c =
     (if courseKey c = (uid, gc_id g) then updCourse g (teacherNameOf E uid g) (applyAll E uid gs c)
      else applyAll E uid gs c)"
  by (induction gs arbitrary: c) auto

lemma applyAll_nomatch:
  "\<forall>g \<in> set gs. (uid, gc_id g) \<noteq> courseKey c \<Longrightarrow> applyAll E uid gs c = c"
  by (induction gs arbitrary: c) auto

text \<open>The columns of a row under a list of updates.\<close>

lemma idOrConst_idem: "idOrConst h \<Longrightarrow> h (h x) = h x"
  unfolding idOrConst_def by metis

lemma idOrConst_comp: "idOrConst f \<Longrightarrow> idOrConst g \<Longrightarrow> idOrConst (\<lambda>x. g (f x))"
  unfolding idOrConst_def by metis

lemma idOrConst_if: "idOrConst f \<Longrightarrow> idOrConst (\<lambda>x. if b then f x else x)"
  unfolding idOrConst_def by auto

lemma foldField_idOrConst:
  assumes "\<And>g. idOrConst (wr g)"
  shows "idOrConst (foldField wr k uid gs)"
proof (induction gs)
  case Nil show ?case by (simp add: idOrConst_def)
next
  case (Cons g gs)
  have 1: "idOrConst (\<lambda>x. if k = (uid, gc_id g) then wr g x else x)" by (rule idOrConst_if[OF assms])
  have "foldField wr k uid (g # gs) = (\<lambda>x. foldField wr k uid gs (if k = (uid, gc_id g) then wr g x else x))"
    by (rule ext) simp
  then show ?case using idOrConst_comp[OF 1 Cons.IH] by simp
qed

lemma idOrConst_const: "idOrConst (\<lambda>x. v)"
  by (auto simp: idOrConst_def)

lemma idOrConst_keepOr: "idOrConst (keepOr n)"
  by (cases n) (auto simp: idOrConst_def keepOr_def)

lemma applyAll_fixed:
  "course_id (applyAll E uid gs c) = course_id c"
  "course_userId (applyAll E uid gs c) = course_userId c"
  "googleCourseId (applyAll E uid gs c) = googleCourseId c"
  "course_syncEnabled (applyAll E uid gs c) = course_syncEnabled c"
  by (induction gs arbitrary: c; simp)+

lemma applyAll_name:
  "course_name (applyAll E uid gs c)
     = foldField (\<lambda>g x. orString (gc_name g) ''Unnamed Course'') (courseKey c) uid gs (course_name c)"
  by (induction gs arbitrary: c) simp_all

lemma applyAll_section:
  "course_section (applyAll E uid gs c)
     = foldField (\<lambda>g. keepOr (gc_section g)) (courseKey c) uid gs (course_section c)"
  by (induction gs arbitrary: c) simp_all

lemma applyAll_description:
  "course_description (applyAll E uid gs c)
     = foldField (\<lambda>g. keepOr (gc_description g)) (courseKey c) uid gs (course_description c)"
  by (induction gs arbitrary: c) simp_all

lemma applyAll_teacherName:
  "teacherName (applyAll E uid gs c)
     = foldField (\<lambda>g x. teacherNameOf E uid g) (courseKey c) uid gs (teacherName c)"
  by (induction gs arbitrary: c) simp_all

lemma applyAll_idem: "applyAll E uid gs (applyAll E uid gs c) = applyAll E uid gs c"
proof (rule course.equality)
  show "course_name (applyAll E uid gs (applyAll E uid gs c)) = course_name (applyAll E uid gs c)"
    by (simp add: applyAll_name idOrConst_idem[OF foldField_idOrConst[OF idOrConst_const]])
  show "course_section (applyAll E uid gs (applyAll E uid gs c)) = course_section (applyAll E uid gs c)"
    by (simp add: applyAll_section idOrConst_idem[OF foldField_idOrConst[OF idOrConst_keepOr]])
  show "course_description (applyAll E uid gs (applyAll E uid gs c)) = course_description (applyAll E uid gs c)"
    by (simp add: applyAll_description idOrConst_idem[OF foldField_idOrConst[OF idOrConst_keepOr]])
  show "teacherName (applyAll E uid gs (applyAll E uid gs c)) = teacherName (applyAll E uid gs c)"
    by (simp add: applyAll_teacherName idOrConst_idem[OF foldField_idOrConst[OF idOrConst_const]])
qed (simp_all add: applyAll_fixed)

lemma key_image_map:
  assumes "\<And>c. courseKey (f c) = courseKey c"
  shows "courseKey ` set (map f T) = courseKey ` set T" and "map courseKey (map f T) = map courseKey T"
  using assms by (simp_all add: image_image)

lemma upd_if_key: "courseKey (if courseKey c = k then updCourse g tn c else c) = courseKey c"
  by simp

lemma upsertRows_keys: "courseKey ` set T \<subseteq> courseKey ` set (upsertRows E uid T g)"
proof (cases "(uid, gc_id g) \<in> courseKey ` set T")
  case True
  then show ?thesis unfolding upsertRows_def
    by (simp only: if_True key_image_map(1)[OF upd_if_key])
next
  case False
  then show ?thesis unfolding upsertRows_def by auto
qed

lemma upsertRows_has_key: "(uid, gc_id g) \<in> courseKey ` set (upsertRows E uid T g)"
proof (cases "(uid, gc_id g) \<in> courseKey ` set T")
  case True then show ?thesis using upsertRows_keys by blast
next
  case False then show ?thesis by (simp add: upsertRows_def courseKey_def)
qed

lemma fold_keys: "courseKey ` set T \<subseteq> courseKey ` set (foldl (upsertRows E uid) T gs)"
proof (induction gs arbitrary: T)
  case Nil show ?case by simp
next
  case (Cons g gs)
  show ?case using upsertRows_keys[of T E uid g] Cons.IH[of "upsertRows E uid T g"] by auto
qed

lemma fold_has_keys: "g \<in> set gs \<Longrightarrow> (uid, gc_id g) \<in> courseKey ` set (foldl (upsertRows E uid) T gs)"
proof (induction gs arbitrary: T)
  case Nil then show ?case by simp
next
  case (Cons a gs)
  show ?case
  proof (cases "g = a")
    case True
    then show ?thesis using upsertRows_has_key[of uid a E T] fold_keys[of "upsertRows E uid T a" E uid gs] by auto
  next
    case False
    then show ?thesis using Cons by auto
  qed
qed

lemma fold_all_present:
  assumes "\<forall>g \<in> set gs. (uid, gc_id g) \<in> courseKey ` set T"
  shows "foldl (upsertRows E uid) T gs = map (applyAll E uid gs) T"
  using assms
proof (induction gs arbitrary: T)
  case Nil show ?case by simp
next
  case (Cons g gs)
  let ?T1 = "map (\<lambda>c. if courseKey c = (uid, gc_id g) then updCourse g (teacherNameOf E uid g) c else c) T"
  have s: "upsertRows E uid T g = ?T1" using Cons.prems by (simp add: upsertRows_def)
  have k: "courseKey ` set ?T1 = courseKey ` set T" by (rule key_image_map(1)[OF upd_if_key])
  have "foldl (upsertRows E uid) ?T1 gs = map (applyAll E uid gs) ?T1"
    using Cons.prems k by (intro Cons.IH) auto
  then show ?case using s by (simp add: comp_def)
qed

text \<open>Every row after a pass is the image of some row under the whole list of updates.\<close>

lemma fold_image:
  "\<forall>c \<in> set (foldl (upsertRows E uid) T gs). \<exists>c0. c = applyAll E uid gs c0"
proof (induction gs rule: rev_induct)
  case Nil show ?case by simp
next
  case (snoc g gs)
  let ?T' = "foldl (upsertRows E uid) T gs"
  let ?tn = "teacherNameOf E uid g"
  show ?case
  proof
    fix c assume "c \<in> set (foldl (upsertRows E uid) T (gs @ [g]))"
    then have c': "c \<in> set (upsertRows E uid ?T' g)" by simp
    show "\<exists>c0. c = applyAll E uid (gs @ [g]) c0"
    proof (cases "(uid, gc_id g) \<in> courseKey ` set ?T'")
      case True
      with c' obtain r where r: "r \<in> set ?T'" "c = (if courseKey r = (uid, gc_id g) then updCourse g ?tn r else r)"
        by (auto simp: upsertRows_def)
      from snoc r(1) obtain c0 where c0: "r = applyAll E uid gs c0" by blast
      have "c = applyAll E uid (gs @ [g]) c0" using r(2) c0 by (simp add: applyAll_snoc)
      then show ?thesis by blast
    next
      case False
      let ?new = "\<lparr>course_id = nextId (map course_id ?T'),
                 course_userId = uid,
                 googleCourseId = gc_id g,
                 course_name = orString (gc_name g) ''Unnamed Course'',
                 course_section = gc_section g,
                 course_description = gc_description g,
                 teacherName = ?tn,
                 course_syncEnabled = default_course_syncEnabled E\<rparr>"
      let ?blank = "?new\<lparr>course_section := None, course_description := None\<rparr>"
      from c' False have "c \<in> set ?T' \<or> c = ?new" by (auto simp: upsertRows_def)
      then show ?thesis
      proof
        assume a: "c \<in> set ?T'"
        then have k: "courseKey c \<noteq> (uid, gc_id g)" using False by (metis image_eqI)
        from snoc a obtain c0 where c0: "c = applyAll E uid gs c0" by blast
        then have "courseKey c0 \<noteq> (uid, gc_id g)" using k by simp
        then have "c = applyAll E uid (gs @ [g]) c0" using c0 by (simp add: applyAll_snoc)
        then show ?thesis by blast
      next
        assume a: "c = ?new"
        have kb: "courseKey ?blank = (uid, gc_id g)" by (simp add: courseKey_def)
        have "\<forall>g' \<in> set gs. (uid, gc_id g') \<noteq> courseKey ?blank"
          using False fold_has_keys[of _ gs uid E T] unfolding kb by metis
        then have nb: "applyAll E uid gs ?blank = ?blank" by (rule applyAll_nomatch)
        have "updCourse g ?tn ?blank = ?new" by (simp add: updCourse_def keepOr_def split: option.splits)
        then have "c = applyAll E uid (gs @ [g]) ?blank" using a kb nb by (simp add: applyAll_snoc)
        then show ?thesis by blast
      qed
    qed
  qed
qed

lemma fold_settled:
  "\<forall>c \<in> set (foldl (upsertRows E uid) T gs). applyAll E uid gs c = c"
  using fold_image[of E uid T gs] applyAll_idem by metis

lemma fold_idempotent:
  "foldl (upsertRows E uid) (foldl (upsertRows E uid) T gs) gs = foldl (upsertRows E uid) T gs"
proof -
  let ?T1 = "foldl (upsertRows E uid) T gs"
  have "\<forall>g \<in> set gs. (uid, gc_id g) \<in> courseKey ` set ?T1" using fold_has_keys by blast
  then have "foldl (upsertRows E uid) ?T1 gs = map (applyAll E uid gs) ?T1" by (rule fold_all_present)
  also have "\<dots> = ?T1" using fold_settled[of E uid T gs] by (simp add: map_idI)
  finally show ?thesis .
qed

lemma upsertRows_distinct:
  assumes d: "distinct (map courseKey T)"
  shows "distinct (map courseKey (upsertRows E uid T g))"
proof (cases "(uid, gc_id g) \<in> courseKey ` set T")
  case True
  then have "upsertRows E uid T g
      = map (\<lambda>c. if courseKey c = (uid, gc_id g) then updCourse g (teacherNameOf E uid g) c else c) T"
    by (simp add: upsertRows_def)
  then show ?thesis using d by (simp only: key_image_map(2)[OF upd_if_key])
next
  case False
  have "courseKey \<lparr>course_id = nextId (map course_id T),
                 course_userId = uid,
                 googleCourseId = gc_id g,
                 course_name = orString (gc_name g) ''Unnamed Course'',
                 course_section = gc_section g,
                 course_description = gc_description g,
                 teacherName = teacherNameOf E uid g,
                 course_syncEnabled = default_course_syncEnabled E\<rparr> = (uid, gc_id g)"
    by (simp add: courseKey_def)
  then show ?thesis using False d by (simp add: upsertRows_def)
qed

lemma fold_distinct:
  "distinct (map courseKey T) \<Longrightarrow> distinct (map courseKey (foldl (upsertRows E uid) T gs))"
  by (induction gs arbitrary: T) (simp_all add: upsertRows_distinct)

section \<open>syncCourses is idempotent\<close>

text \<open>
  Claim C5. When a pass of \<open>syncCourses\<close> has returned, a second pass for the same account
  against the same upstream answers, at any later clock reading, leaves the whole course
  table exactly as the first pass left it: no row is added and every row keeps the values
  of all its fields, the name, section, description and instructor among them. If the
  table had at most one row per (account, upstream course id) before the first pass, it
  has so after each of the two.
\<close>

theorem syncCourses_idempotent:
  assumes "syncCourses E now uid w = (Inr synced, w1)"
  shows "courses (snd (syncCourses E now2 uid w1)) = courses w1
       \<and> (distinct (map courseKey (courses w)) \<longrightarrow>
            distinct (map courseKey (courses w1))
          \<and> distinct (map courseKey (courses (snd (syncCourses E now2 uid w1)))))"
proof -
  from syncCourses_cases[of E now uid w] assms obtain gcs where
    g: "coursesList E uid = Inr gcs" and c1: "courses w1 = foldl (upsertRows E uid) (courses w) gcs"
    by auto
  have same: "courses (snd (syncCourses E now2 uid w1)) = courses w1"
    using syncCourses_cases[of E now2 uid w1]
  proof (elim disjE exE conjE)
    fix e assume "courses (snd (syncCourses E now2 uid w1)) = courses w1"
    then show ?thesis .
  next
    fix rows gcs' assume a: "coursesList E uid = Inr gcs'"
      "courses (snd (syncCourses E now2 uid w1)) = foldl (upsertRows E uid) (courses w1) gcs'"
    then have "gcs' = gcs" using g by simp
    then show ?thesis using a(2) c1 fold_idempotent[of E uid "courses w" gcs] by simp
  qed
  have "distinct (map courseKey (courses w)) \<longrightarrow> distinct (map courseKey (courses w1))"
    using c1 fold_distinct[of "courses w" E uid gcs] by simp
  with same show ?thesis by simp
qed

theorem syncCourses_idempotent_witness:
  "fst (syncCourses exEnvSync exNow1000 ''u1'' exWorldConn) = Inr exCourses
   \<and> courses (snd (syncCourses exEnvSync exNow1000 ''u1'' exWorldConn)) = exCourses
   \<and> courses (snd (syncCourses exEnvSync exNow9000 ''u1''
                 (snd (syncCourses exEnvSync exNow1000 ''u1'' exWorldConn)))) = exCourses
   \<and> distinct (map courseKey exCourses)"
proof -
  let ?w1 = "snd (syncCourses exEnvSync exNow1000 ''u1'' exWorldConn)"
  have f: "fst (syncCourses exEnvSync exNow1000 ''u1'' exWorldConn) = Inr exCourses" by code_simp
  have c: "courses ?w1 = exCourses" by code_simp
  have d: "distinct (map courseKey (courses exWorldConn))" by (simp add: exWorldConn_def exWorld_def)
  have run: "syncCourses exEnvSync exNow1000 ''u1'' exWorldConn = (Inr exCourses, ?w1)"
    using f by (simp add: prod_eq_iff)
  from syncCourses_idempotent[OF run, of exNow9000] d
  have "courses (snd (syncCourses exEnvSync exNow9000 ''u1'' ?w1)) = courses ?w1"
    and "distinct (map courseKey (courses ?w1))" by blast+
  then show ?thesis using f c by simp
qed

section \<open>What a sync pass leaves alone\<close>

lemma keeps_refl: "keeps c w w"
  by (simp add: keeps_def list_all2_refl)

lemma keeps_trans:
  assumes "keeps c a b" and "keeps c b d"
  shows "keeps c a d"
proof -
  let ?R = "\<lambda>x y. conn_id y = conn_id x \<and> (x = c \<longrightarrow> y = c)"
  have 1: "list_all2 ?R (connections a) (connections b)" using assms(1) by (simp add: keeps_def)
  have 2: "list_all2 ?R (connections b) (connections d)" using assms(2) by (simp add: keeps_def)
  have "list_all2 ?R (connections a) (connections d)"
    by (rule list_all2_trans[OF _ 1 2]) auto
  then show ?thesis using assms by (simp add: keeps_def)
qed

lemma forEach_frame_set:
  assumes tr: "\<And>a b c. F a b \<Longrightarrow> F b c \<Longrightarrow> F a c"
    and rf: "\<And>a. F a a"
    and b: "\<And>x w'. x \<in> set xs \<Longrightarrow> F w' (snd (body x w'))"
  shows "F w (snd (forEach body xs w))"
  using b
proof (induction xs arbitrary: w)
  case Nil show ?case by (simp add: io_simps rf)
next
  case (Cons x xs)
  have 1: "F w (snd (body x w))" using Cons.prems by simp
  have 2: "\<And>u w'. F w' (snd ((\<lambda>_. forEach body xs) u w'))" using Cons.IH Cons.prems by simp
  show ?case unfolding forEach.simps
    by (rule bind_frame[where F=F and m="body x" and f="\<lambda>_. forEach body xs", OF tr 1 2])
qed

lemma keeps_emit:
  "\<not> isUpstreamCallOf (conn_userId c) ev \<Longrightarrow> keeps c w (snd (emit ev w))"
  by (simp add: keeps_def emit_def upstreamCalls_def list_all2_refl)

lemma keeps_pushFrame: "pushFrame w w' \<Longrightarrow> keeps c w w'"
proof -
  assume "pushFrame w w'"
  then obtain p evs where w': "w' = w\<lparr>pushTokens := p, trace := trace w @ evs\<rparr>" and e: "list_all isExpoPush evs"
    unfolding pushFrame_def by blast
  have "filter (isUpstreamCallOf (conn_userId c)) evs = []"
    using e
  proof (induction evs)
    case Nil then show ?case by simp
  next
    case (Cons ev evs) then show ?case by (cases ev) auto
  qed
  then show ?thesis using w' by (simp add: keeps_def upstreamCalls_def list_all2_refl)
qed

lemma keeps_storeCredentials:
  "conn_userId c \<noteq> v \<Longrightarrow> keeps c w (snd (storeCredentials now v conn cr w))"
  by (simp add: keeps_def storeCredentials_def list_all2_map2 list_all2_refl)

lemma keeps_setLastSyncAt:
  "conn_id c \<noteq> j \<Longrightarrow> keeps c w (snd (setLastSyncAt now j w))"
  by (simp add: keeps_def setLastSyncAt_def list_all2_map2 list_all2_refl)

lemma keeps_same: "connections w' = connections w \<Longrightarrow> trace w' = trace w \<Longrightarrow> keeps c w w'"
  by (simp add: keeps_def list_all2_refl)

lemma bind_frame_res:
  assumes tr: "\<And>a b c. F a b \<Longrightarrow> F b c \<Longrightarrow> F a c"
    and m: "F w (snd (m w))"
    and res: "\<And>x. fst (m w) = Inr x \<Longrightarrow> Q x"
    and f: "\<And>x w'. Q x \<Longrightarrow> F w' (snd (f x w'))"
  shows "F w (snd (bind m f w))"
proof (cases "m w")
  case (Pair r w1)
  show ?thesis
  proof (cases r)
    case (Inl e) then show ?thesis using Pair m by (simp add: io_simps)
  next
    case (Inr x)
    have "F w w1" using m Pair by simp
    moreover have "Q x" using res Pair Inr by simp
    ultimately have "F w (snd (f x w1))" using tr f by blast
    then show ?thesis using Pair Inr by (simp add: io_simps)
  qed
qed

lemma keeps_ret: "keeps c w (snd (ret x w))"
  by (simp add: io_simps keeps_refl)

lemma keeps_throw: "keeps c w (snd (throw e w))"
  by (simp add: io_simps keeps_refl)

lemma keeps_auth:
  assumes "conn_userId c \<noteq> v"
  shows "keeps c w (snd (getAuthenticatedClient E now v w))"
proof -
  let ?w1 = "w\<lparr>trace := trace w @ [RefreshAccessToken v]\<rparr>"
  have 1: "keeps c w ?w1" using keeps_emit[of c "RefreshAccessToken v" w] assms by (simp add: emit_def)
  have 2: "\<And>conn cr. keeps c w (snd (storeCredentials now v conn cr ?w1))"
    using keeps_trans[OF 1 keeps_storeCredentials[OF assms]] by blast
  show ?thesis using 1 2
    by (simp add: auth_unfold keeps_refl split: option.splits sum.splits)
qed

lemma auth_result: "fst (getAuthenticatedClient E now v w) = Inr x \<Longrightarrow> x = v"
  using auth_client[of E now v w x "snd (getAuthenticatedClient E now v w)"] by (simp add: prod_eq_iff)

lemma keeps_fetchTeacherName:
  "conn_userId c \<noteq> v \<Longrightarrow> keeps c w (snd (fetchTeacherName E v gc w))"
  using keeps_emit[of c "TeachersList v (gc_id gc)" w]
  by (simp add: fetchTeacherName_shape emit_def)

lemma keeps_upsertCourse: "keeps c w (snd (upsertCourse E v gc tn w))"
  by (rule keeps_same) (simp_all add: upsertCourse_def Let_def split: option.splits)

lemma keeps_importWork: "keeps c w (snd (importWork E now v crs acc work w))"
  by (rule keeps_same) (simp_all add: importWork_def Let_def split: option.splits)

lemma keeps_bind:
  assumes "keeps c w (snd (m w))" and "\<And>x w'. keeps c w' (snd (f x w'))"
  shows "keeps c w (snd (bind m f w))"
  using bind_frame[where F="keeps c" and m=m and f=f and w=w] keeps_trans assms by blast

lemma keeps_bind_res:
  assumes "keeps c w (snd (m w))" and "\<And>x. fst (m w) = Inr x \<Longrightarrow> Q x"
    and "\<And>x w'. Q x \<Longrightarrow> keeps c w' (snd (f x w'))"
  shows "keeps c w (snd (bind m f w))"
  using bind_frame_res[where F="keeps c" and m=m and f=f and w=w and Q=Q] keeps_trans assms by blast

lemma keeps_catch:
  assumes "keeps c w (snd (m w))" and "\<And>e w'. keeps c w' (snd (h e w'))"
  shows "keeps c w (snd (catch m h w))"
  using catch_frame[where F="keeps c" and m=m and h=h and w=w] keeps_trans assms by blast

lemma keeps_forEach:
  assumes "\<And>x w'. keeps c w' (snd (body x w'))"
  shows "keeps c w (snd (forEach body xs w))"
  using forEach_frame[where F="keeps c" and body=body and xs=xs and w=w] keeps_trans keeps_refl assms by blast

lemma keeps_forEach_set:
  assumes "\<And>x w'. x \<in> set xs \<Longrightarrow> keeps c w' (snd (body x w'))"
  shows "keeps c w (snd (forEach body xs w))"
  using forEach_frame_set[where F="keeps c" and body=body and xs=xs and w=w] keeps_trans keeps_refl assms by blast

lemma keeps_foldIO:
  assumes "\<And>acc x w'. keeps c w' (snd (body acc x w'))"
  shows "keeps c w (snd (foldIO body acc xs w))"
  using foldIO_frame[where F="keeps c" and body=body and xs=xs and w=w and acc=acc] keeps_trans keeps_refl assms by blast

lemma keeps_syncCourses:
  assumes "conn_userId c \<noteq> v"
  shows "keeps c w (snd (syncCourses E now v w))"
  unfolding syncCourses_def
proof (rule keeps_bind_res[where Q="\<lambda>x. x = v"])
  show "keeps c w (snd (getAuthenticatedClient E now v w))" by (rule keeps_auth[OF assms])
  show "\<And>x. fst (getAuthenticatedClient E now v w) = Inr x \<Longrightarrow> x = v" by (rule auth_result)
next
  fix x w' assume x: "x = v"
  have cx: "conn_userId c \<noteq> x" using x assms by simp
  show "keeps c w' (snd (bind (emit (CoursesList x)) (\<lambda>_.
       case coursesList E x of
         Inl e \<Rightarrow> throw e
       | Inr gcs \<Rightarrow>
           foldIO (\<lambda>syncedCourses gc.
                     bind (fetchTeacherName E x gc) (\<lambda>tname.
                     bind (upsertCourse E v gc tname) (\<lambda>synced.
                     ret (syncedCourses @ [synced]))))
                  [] gcs) w'))"
  proof (rule keeps_bind)
    show "keeps c w' (snd (emit (CoursesList x) w'))" using cx by (intro keeps_emit) simp
  next
    fix u w''
    show "keeps c w'' (snd ((case coursesList E x of
         Inl e \<Rightarrow> throw e
       | Inr gcs \<Rightarrow>
           foldIO (\<lambda>syncedCourses gc.
                     bind (fetchTeacherName E x gc) (\<lambda>tname.
                     bind (upsertCourse E v gc tname) (\<lambda>synced.
                     ret (syncedCourses @ [synced]))))
                  [] gcs) w''))"
    proof (cases "coursesList E x")
      case (Inl e) then show ?thesis by (simp add: keeps_throw)
    next
      case (Inr gcs)
      have "keeps c w'' (snd (foldIO (\<lambda>syncedCourses gc.
                     bind (fetchTeacherName E x gc) (\<lambda>tname.
                     bind (upsertCourse E v gc tname) (\<lambda>synced.
                     ret (syncedCourses @ [synced]))))
                  [] gcs w''))"
      proof (rule keeps_foldIO)
        fix acc gc w3
        show "keeps c w3 (snd (bind (fetchTeacherName E x gc) (\<lambda>tname.
                     bind (upsertCourse E v gc tname) (\<lambda>synced.
                     ret (acc @ [synced]))) w3))"
          by (intro keeps_bind keeps_fetchTeacherName[OF cx] keeps_upsertCourse keeps_ret)
      qed
      then show ?thesis using Inr by simp
    qed
  qed
qed

lemma keeps_syncCourseTasks:
  assumes "conn_userId c \<noteq> v"
  shows "keeps c w (snd (syncCourseTasks E now v v acc crs w))"
  unfolding syncCourseTasks_def
proof (rule keeps_catch)
  show "keeps c w (snd (bind (emit (CourseWorkList v (googleCourseId crs))) (\<lambda>_.
          case courseWorkList E v (googleCourseId crs) of
            Inl e \<Rightarrow> throw e
          | Inr coursework \<Rightarrow> foldIO (importWork E now v crs) acc coursework) w))"
  proof (rule keeps_bind)
    show "keeps c w (snd (emit (CourseWorkList v (googleCourseId crs)) w))"
      using assms by (intro keeps_emit) simp
  next
    fix u w'
    show "keeps c w' (snd ((case courseWorkList E v (googleCourseId crs) of
            Inl e \<Rightarrow> throw e
          | Inr coursework \<Rightarrow> foldIO (importWork E now v crs) acc coursework) w'))"
      by (cases "courseWorkList E v (googleCourseId crs)")
         (simp_all add: keeps_throw keeps_foldIO keeps_importWork)
  qed
next
  fix e w'
  show "keeps c w' (snd (bind (emit (ConsoleError (''Error syncing course '' @ course_name crs @ '':'') e))
                  (\<lambda>_. ret acc) w'))"
    by (intro keeps_bind keeps_emit keeps_ret) simp
qed

lemma keeps_syncTasks:
  assumes "conn_userId c \<noteq> v"
  shows "keeps c w (snd (syncTasks E now v w))"
  unfolding syncTasks_def
proof (rule keeps_bind_res[where Q="\<lambda>x. x = v"])
  show "keeps c w (snd (getAuthenticatedClient E now v w))" by (rule keeps_auth[OF assms])
  show "\<And>x. fst (getAuthenticatedClient E now v w) = Inr x \<Longrightarrow> x = v" by (rule auth_result)
next
  fix x w' assume x: "x = v"
  show "keeps c w' (snd (foldIO (syncCourseTasks E now v x) [] (syncEnabledCourses w' v) w'))"
    unfolding x by (rule keeps_foldIO) (rule keeps_syncCourseTasks[OF assms])
qed

lemma keeps_checkForNewTasks:
  assumes "conn_userId c \<noteq> v"
  shows "keeps c w (snd (checkForNewTasks E now v w))"
  unfolding checkForNewTasks_def Let_def
  by (rule keeps_bind) (simp_all add: keeps_syncTasks[OF assms] keeps_refl)

lemma sendNewTaskNotification_frame: "pushFrame w (snd (sendNewTaskNotification E now uid ttl cn w))"
  by (simp add: sendNewTaskNotification_def pushFrame_refl sendToUser_frame)

lemma keeps_syncConnection:
  assumes "conn_userId c \<noteq> conn_userId conn" and "conn_id c \<noteq> conn_id conn"
  shows "keeps c w (snd (syncConnection E now mail conn w))"
  unfolding syncConnection_def
proof (rule keeps_catch)
  show "keeps c w (snd (bind (syncCourses E now (conn_userId conn)) (\<lambda>_.
        bind (checkForNewTasks E now (conn_userId conn)) (\<lambda>(hasNew, count).
        bind (if hasNew
              then (\<lambda>w. forEach (\<lambda>t.
                      bind (sendNewTaskNotification E now (conn_userId conn) (title t) (courseNameOf w t))
                           (\<lambda>_. ret ()))
                    (recentClassroomTasks w now (conn_userId conn)) w)
              else ret ()) (\<lambda>_.
        setLastSyncAt now (conn_id conn)))) w))"
  proof (rule keeps_bind)
    show "keeps c w (snd (syncCourses E now (conn_userId conn) w))" by (rule keeps_syncCourses[OF assms(1)])
  next
    fix u w1
    show "keeps c w1 (snd (bind (checkForNewTasks E now (conn_userId conn)) (\<lambda>(hasNew, count).
        bind (if hasNew
              then (\<lambda>w. forEach (\<lambda>t.
                      bind (sendNewTaskNotification E now (conn_userId conn) (title t) (courseNameOf w t))
                           (\<lambda>_. ret ()))
                    (recentClassroomTasks w now (conn_userId conn)) w)
              else ret ()) (\<lambda>_.
        setLastSyncAt now (conn_id conn))) w1))"
    proof (rule keeps_bind)
      show "keeps c w1 (snd (checkForNewTasks E now (conn_userId conn) w1))"
        by (rule keeps_checkForNewTasks[OF assms(1)])
    next
      fix r :: "bool \<times> int" and w2
      obtain hasNew :: bool and count :: int where r: "r = (hasNew, count)" by (cases r)
      have inner: "keeps c w2 (snd ((if hasNew
              then (\<lambda>w. forEach (\<lambda>t.
                      bind (sendNewTaskNotification E now (conn_userId conn) (title t) (courseNameOf w t))
                           (\<lambda>_. ret ()))
                    (recentClassroomTasks w now (conn_userId conn)) w)
              else ret ()) w2))"
      proof (cases hasNew)
        case False then show ?thesis by (simp add: keeps_ret)
      next
        case True
        have "keeps c w2 (snd (forEach (\<lambda>t.
                      bind (sendNewTaskNotification E now (conn_userId conn) (title t) (courseNameOf w2 t))
                           (\<lambda>_. ret ()))
                    (recentClassroomTasks w2 now (conn_userId conn)) w2))"
          by (intro keeps_forEach keeps_bind keeps_ret keeps_pushFrame sendNewTaskNotification_frame)
        then show ?thesis using True by simp
      qed
      have "keeps c w2 (snd (bind (if hasNew
              then (\<lambda>w. forEach (\<lambda>t.
                      bind (sendNewTaskNotification E now (conn_userId conn) (title t) (courseNameOf w t))
                           (\<lambda>_. ret ()))
                    (recentClassroomTasks w now (conn_userId conn)) w)
              else ret ()) (\<lambda>_.
        setLastSyncAt now (conn_id conn)) w2))"
      proof (rule keeps_bind)
        show "keeps c w2 (snd ((if hasNew
              then (\<lambda>w. forEach (\<lambda>t.
                      bind (sendNewTaskNotification E now (conn_userId conn) (title t) (courseNameOf w t))
                           (\<lambda>_. ret ()))
                    (recentClassroomTasks w now (conn_userId conn)) w)
              else ret ()) w2))" by (rule inner)
      next
        fix u w3 show "keeps c w3 (snd (setLastSyncAt now (conn_id conn) w3))"
          by (rule keeps_setLastSyncAt[OF assms(2)])
      qed
      then show "keeps c w2 (snd ((case r of (hasNew, count) \<Rightarrow>
        bind (if hasNew
              then (\<lambda>w. forEach (\<lambda>t.
                      bind (sendNewTaskNotification E now (conn_userId conn) (title t) (courseNameOf w t))
                           (\<lambda>_. ret ()))
                    (recentClassroomTasks w now (conn_userId conn)) w)
              else ret ()) (\<lambda>_.
        setLastSyncAt now (conn_id conn))) w2))"
        using r by simp
    qed
  qed
next
  fix e w'
  show "keeps c w' (snd (emit (ConsoleError (''[SYNC] Error syncing user '' @ mail @ '':'') e) w'))"
    by (intro keeps_emit) simp
qed

lemma keeps_member:
  assumes "keeps c w w'" and "c \<in> set (connections w)"
  shows "c \<in> set (connections w')"
proof -
  from assms(2) obtain i where i: "i < length (connections w)" "connections w ! i = c"
    by (auto simp: in_set_conv_nth)
  from assms(1) have l: "list_all2 (\<lambda>a b. conn_id b = conn_id a \<and> (a = c \<longrightarrow> b = c)) (connections w) (connections w')"
    by (simp add: keeps_def)
  then have "length (connections w') = length (connections w)" by (simp add: list_all2_lengthD)
  moreover have "connections w' ! i = c" using list_all2_nthD[OF l i(1)] i(2) by simp
  ultimately show ?thesis using i(1) by (metis nth_mem)
qed

lemma keeps_unique:
  assumes "keeps c w w'" and "c \<in> set (connections w)" and "distinct (map conn_id (connections w))"
    and "c' \<in> set (connections w')" and "conn_id c' = conn_id c"
  shows "c' = c"
proof -
  from assms(1) have l: "list_all2 (\<lambda>a b. conn_id b = conn_id a \<and> (a = c \<longrightarrow> b = c)) (connections w) (connections w')"
    by (simp add: keeps_def)
  then have len: "length (connections w') = length (connections w)" by (simp add: list_all2_lengthD)
  from assms(4) obtain i where i: "i < length (connections w')" "connections w' ! i = c'"
    by (auto simp: in_set_conv_nth)
  have iw: "i < length (connections w)" using i(1) len by simp
  from list_all2_nthD[OF l iw] have p: "conn_id (connections w' ! i) = conn_id (connections w ! i)"
    "connections w ! i = c \<longrightarrow> connections w' ! i = c" by simp_all
  have "conn_id (connections w ! i) = conn_id c" using p(1) i(2) assms(5) by simp
  moreover have "connections w ! i \<in> set (connections w)" using iw by simp
  ultimately have "connections w ! i = c"
    using assms(2,3) by (meson distinct_map inj_onD)
  then show ?thesis using p(2) i(2) by simp
qed

lemma distinct_map_neq:
  "distinct (map f xs) \<Longrightarrow> x \<in> set xs \<Longrightarrow> y \<in> set xs \<Longrightarrow> x \<noteq> y \<Longrightarrow> f x \<noteq> f y"
  by (meson distinct_map inj_onD)

section \<open>Disabled and credential-less connections\<close>

text \<open>
  Claim C4. Let the connection table have one row per account and per id. For a connection
  whose sync-enabled flag is false or whose stored access credential is empty, a pass of
  \<open>SyncJob.run\<close> makes no call of the Classroom API for that account (no credential refresh,
  no course, teacher or assignment listing), and leaves the connection's row as it was,
  its \<open>lastSyncAt\<close> included.
\<close>

theorem disabled_connection_is_never_polled:
  assumes "c \<in> set (connections w)" and "\<not> conn_syncEnabled c \<or> accessToken c = []"
    and "distinct (map conn_userId (connections w))" and "distinct (map conn_id (connections w))"
  shows "upstreamCalls (conn_userId c) (trace (snd (syncJob_run E now w))) = upstreamCalls (conn_userId c) (trace w)
       \<and> c \<in> set (connections (snd (syncJob_run E now w)))
       \<and> (\<forall>c' \<in> set (connections (snd (syncJob_run E now w))).
             conn_id c' = conn_id c \<longrightarrow> c' = c \<and> lastSyncAt c' = lastSyncAt c)"
proof -
  let ?w' = "snd (syncJob_run E now w)"
  have k: "keeps c w ?w'"
    unfolding syncJob_run_def
  proof (rule keeps_forEach_set)
    fix x w' assume "x \<in> set (syncableConnections w)"
    then have x: "x \<in> set (connections w)" "conn_syncEnabled x \<and> accessToken x \<noteq> []"
      by (simp_all add: syncableConnections_def)
    then have ne: "c \<noteq> x" using assms(2) by auto
    have 1: "conn_userId c \<noteq> conn_userId x" by (rule distinct_map_neq[OF assms(3) assms(1) x(1) ne])
    have 2: "conn_id c \<noteq> conn_id x" by (rule distinct_map_neq[OF assms(4) assms(1) x(1) ne])
    show "keeps c w' (snd (syncConnection E now (userEmail w (conn_userId x)) x w'))"
      by (rule keeps_syncConnection[OF 1 2])
  qed
  have a: "upstreamCalls (conn_userId c) (trace ?w') = upstreamCalls (conn_userId c) (trace w)"
    using k by (simp add: keeps_def)
  have b: "c \<in> set (connections ?w')" by (rule keeps_member[OF k assms(1)])
  have d: "\<forall>c' \<in> set (connections ?w'). conn_id c' = conn_id c \<longrightarrow> c' = c \<and> lastSyncAt c' = lastSyncAt c"
    using keeps_unique[OF k assms(1) assms(4)] by blast
  from a b d show ?thesis by blast
qed

theorem disabled_connection_is_never_polled_witness:
  "exConnB \<in> set (connections exWorldJob) \<and> accessToken exConnB = [] \<and> \<not> conn_syncEnabled exConnB
   \<and> upstreamCalls ''u2'' (trace (snd (syncJob_run exEnvSync exNow1000 exWorldJob))) = []
   \<and> exConnB \<in> set (connections (snd (syncJob_run exEnvSync exNow1000 exWorldJob)))
   \<and> upstreamCalls ''u1'' (trace (snd (syncJob_run exEnvSync exNow1000 exWorldJob))) \<noteq> []"
proof -
  have h1: "exConnB \<in> set (connections exWorldJob)" by (simp add: exWorldJob_def)
  have h2: "\<not> conn_syncEnabled exConnB \<or> accessToken exConnB = []" by (simp add: exConnB_def)
  have h3: "distinct (map conn_userId (connections exWorldJob))"
    by (simp add: exWorldJob_def exConn_def exConnB_def)
  have h4: "distinct (map conn_id (connections exWorldJob))"
    by (simp add: exWorldJob_def exConn_def exConnB_def)
  have u: "conn_userId exConnB = ''u2''" by (simp add: exConnB_def)
  have tr: "trace exWorldJob = []" by (simp add: exWorldJob_def exWorld_def)
  have polled: "upstreamCalls ''u1'' (trace (snd (syncJob_run exEnvSync exNow1000 exWorldJob))) \<noteq> []"
    by code_simp
  from disabled_connection_is_never_polled[OF h1 h2 h3 h4, of exEnvSync exNow1000]
  have "upstreamCalls (conn_userId exConnB) (trace (snd (syncJob_run exEnvSync exNow1000 exWorldJob)))
          = upstreamCalls (conn_userId exConnB) (trace exWorldJob)"
    and "exConnB \<in> set (connections (snd (syncJob_run exEnvSync exNow1000 exWorldJob)))"
    by blast+
  then show ?thesis using h1 polled unfolding u tr by (simp add: upstreamCalls_def exConnB_def)
qed

section \<open>Failure isolation across accounts\<close>

text \<open>The sync pass catches every error inside the loop over the connections: it always
  returns.\<close>

lemma forEach_returns:
  assumes "\<And>x w'. fst (body x w') = Inr ()"
  shows "fst (forEach body xs w) = Inr ()"
proof (induction xs arbitrary: w)
  case Nil show ?case by (simp add: io_simps)
next
  case (Cons x xs)
  obtain w1 where "body x w = (Inr (), w1)" using assms[of x w] by (cases "body x w") simp
  then show ?case using Cons.IH[of w1] by (simp add: io_simps)
qed

lemma syncConnection_returns: "fst (syncConnection E now mail conn w) = Inr ()"
  by (simp add: syncConnection_def io_simps split: prod.splits sum.splits)

lemma syncJob_run_returns: "fst (syncJob_run E now w) = Inr ()"
  unfolding syncJob_run_def by (rule forEach_returns) (rule syncConnection_returns)

text \<open>
  Claim C6 holds for the sync pass and fails for the reminder pass: the loop of
  \<open>ReminderJob.run\<close> over the users has no \<open>try\<close>/\<open>catch\<close>, so an error thrown for one user
  leaves the loop. In the example the push gateway cannot be reached for the first user's
  token: the pass throws after raising the first user's reminder, and the second user's
  task, which is inside its 24-hour window, is not looked at (with a reachable gateway the
  same pass raises its reminder). The sync pass on two accounts, of which the first fails,
  logs the error with the account's email and goes on to synchronise the second.
\<close>

theorem reminder_pass_stops_at_first_error:
  "fst (reminderJob_run exEnvPushFails exTick24 exWorldTwo) = Inl (External ''network'')
   \<and> dueCalls 1 24 (trace (snd (reminderJob_run exEnvPushFails exTick24 exWorldTwo))) = 1
   \<and> dueCalls 2 24 (trace (snd (reminderJob_run exEnvPushFails exTick24 exWorldTwo))) = 0
   \<and> tasks (snd (reminderJob_run exEnvPushFails exTick24 exWorldTwo)) = [exTask, exTaskB]
   \<and> dueCalls 2 24 (trace (snd (reminderJob_run exEnv exTick24 exWorldTwo))) = 1
   \<and> fst (syncJob_run exEnvSyncFails exNow1000 exWorldJob2) = Inr ()
   \<and> ConsoleError ''[SYNC] Error syncing user u1@example.org:'' (External ''500'')
        \<in> set (trace (snd (syncJob_run exEnvSyncFails exNow1000 exWorldJob2)))
   \<and> map lastSyncAt (connections (snd (syncJob_run exEnvSyncFails exNow1000 exWorldJob2))) = [None, Some 1000]"
  by code_simp


end
